theory Spec2Isabelle
  imports Complex_Main
begin

section \<open>Decoded JSON values and external libraries\<close>

text \<open>
  The Go code receives decoded documents as \<^verbatim>\<open>interface{}\<close> values. The six shapes a
  JSON decoder produces are the first six constructors; \<open>JOther\<close> stands for any other Go
  value (the tests pass the Go int \<^verbatim>\<open>3\<close>, which is not a \<^verbatim>\<open>float64\<close>).
  A \<^verbatim>\<open>float64\<close> is modelled by the rational number it denotes: NaN and the infinities,
  which no decoded JSON document contains, are outside the model. Comparison and the
  functions of package math used here are exact on these values; an arithmetic operation
  that rounds in Go (\<^verbatim>\<open>/\<close>, \<^verbatim>\<open>-\<close>) rounds here, with \<open>round64\<close> of the section on numbers.
  A \<^verbatim>\<open>map[string]interface{}\<close> is an association list read with \<open>map_of\<close>.
\<close>

datatype json =
    JNull
  | JBool bool
  | JNum rat
  | JStr string
  | JArr "json list"
  | JObj "(string \<times> json) list"
  | JOther

text \<open>\<^verbatim>\<open>url.URL\<close> of net/url, with the fields the tests and the code read or write.\<close>

record url =
  Scheme :: string
  Host :: string
  Path :: string
  RawQuery :: string
  Fragment :: string

definition emptyURL :: url where
  "emptyURL = \<lparr>Scheme = [], Host = [], Path = [], RawQuery = [], Fragment = []\<rparr>"

text \<open>
  The functions of net/url and github.com/ucarion/json-pointer that the parser calls are
  not part of this repository; the parser takes them as a parameter.
  \<open>url_Parse\<close> is \<^verbatim>\<open>url.Parse\<close>, \<open>url_Resolve base ref\<close> is \<^verbatim>\<open>base.Parse(ref)\<close>
  (a reference resolved in the context of \<open>base\<close>), \<open>ptr_New\<close> is \<^verbatim>\<open>jsonpointer.New\<close>
  and \<open>ptr_String\<close> is \<^verbatim>\<open>Ptr.String\<close>; \<open>None\<close> is a returned error.
\<close>

record urllib =
  url_Parse :: "string \<Rightarrow> url option"
  url_Resolve :: "url \<Rightarrow> string \<Rightarrow> url option"
  ptr_New :: "string \<Rightarrow> string list option"
  ptr_String :: "string list \<Rightarrow> string"

section \<open>The schema model of parser.go\<close>

datatype jsonType =
    jsonTypeNull
  | jsonTypeBoolean
  | jsonTypeNumber
  | jsonTypeInteger
  | jsonTypeString
  | jsonTypeArray
  | jsonTypeObject

record schemaType =
  Type_IsSet :: bool
  Type_IsSingle :: bool
  Types :: "jsonType list"

record schemaItems =
  Items_IsSet :: bool
  Items_IsSingle :: bool
  Schemas :: "nat list"

record schemaRef =
  Ref_IsSet :: bool
  Ref_Schema :: nat
  Ref_URI :: url
  Ref_BaseURI :: url
  Ref_Ptr :: "string list"

record schema =
  ID :: url
  Ref :: schemaRef
  Type :: schemaType
  Items :: schemaItems

text \<open>\<^verbatim>\<open>schema{}\<close>: the zero value of the struct.\<close>

definition schema0 :: schema where
  "schema0 =
     \<lparr>ID = emptyURL,
      Ref = \<lparr>Ref_IsSet = False, Ref_Schema = 0, Ref_URI = emptyURL, Ref_BaseURI = emptyURL,
             Ref_Ptr = []\<rparr>,
      Type = \<lparr>Type_IsSet = False, Type_IsSingle = False, Types = []\<rparr>,
      Items = \<lparr>Items_IsSet = False, Items_IsSingle = False, Schemas = []\<rparr>\<rparr>"

text \<open>\<^verbatim>\<open>func (t schemaType) contains(typ jsonType) bool\<close>\<close>

fun contains :: "schemaType \<Rightarrow> jsonType \<Rightarrow> bool" where
  "contains t typ = (typ \<in> set (Types t))"

datatype parse_error =
    IdNotString
  | IdNotValidURI
  | RefNotString
  | InvalidURI
  | RefFragmentNotPointer
  | InvalidTypeValue
  | SchemaNotObject

fun parseJSONType :: "string \<Rightarrow> parse_error + jsonType" where
  "parseJSONType typ =
     (if typ = ''null'' then Inr jsonTypeNull
      else if typ = ''boolean'' then Inr jsonTypeBoolean
      else if typ = ''number'' then Inr jsonTypeNumber
      else if typ = ''integer'' then Inr jsonTypeInteger
      else if typ = ''string'' then Inr jsonTypeString
      else if typ = ''array'' then Inr jsonTypeArray
      else if typ = ''object'' then Inr jsonTypeObject
      else Inl InvalidTypeValue)"

section \<open>The registry\<close>

text \<open>
  Modelled from the spec: the registry type is not under src/. Section 4.2 describes an
  append-only indexed store of schema nodes keyed by URI; it is the list of the inserted
  (URI, node) pairs in insertion order, a node's index being its position.
\<close>

type_synonym registry = "(url \<times> schema) list"

text \<open>
  Modelled from the spec: \<^verbatim>\<open>registry.Insert\<close>, called by \<^verbatim>\<open>Parse\<close>, is not under src/.
  Section 4.2: \<^verbatim>\<open>insert(uri, node) -> index\<close>, append-only, returns the new index.
\<close>

definition Insert :: "registry \<Rightarrow> url \<Rightarrow> schema \<Rightarrow> nat \<times> registry" where
  "Insert r uri s = (length r, r @ [(uri, s)])"

text \<open>
  Modelled from the spec: \<^verbatim>\<open>registry.GetIndex\<close>, called by \<^verbatim>\<open>parseSubSchema\<close>, is not under
  src/. Section 4.2: \<^verbatim>\<open>get(index) -> node\<close>; \<open>None\<close> is an index out of range.
\<close>

definition GetIndex :: "registry \<Rightarrow> nat \<Rightarrow> schema option" where
  "GetIndex r i = (if i < length r then Some (snd (r ! i)) else None)"

section \<open>The parser of parser.go\<close>

text \<open>
  \<^verbatim>\<open>p.registry\<close> is a pointer to the registry shared by all parsers of one build; the
  model threads the registry through the parser state.
\<close>

record parser =
  registry :: registry
  baseURI :: url
  tokens :: "string list"

definition Push :: "string \<Rightarrow> parser \<Rightarrow> parser" where
  "Push token p = p\<lparr>tokens := tokens p @ [token]\<rparr>"

text \<open>
  \<^verbatim>\<open>p.tokens[:len(p.tokens)-1]\<close> panics on an empty stack; \<open>Parse\<close> calls \<open>Pop\<close> only
  after a matching \<open>Push\<close>.
\<close>

definition Pop :: "parser \<Rightarrow> parser" where
  "Pop p = p\<lparr>tokens := butlast (tokens p)\<rparr>"

definition URI :: "urllib \<Rightarrow> parser \<Rightarrow> url" where
  "URI lib p = (baseURI p)\<lparr>Fragment := ptr_String lib (tokens p)\<rparr>"

text \<open>\<^verbatim>\<open>strconv.FormatInt(int64(i), 10)\<close> for the loop index \<open>i \<ge> 0\<close>.\<close>

definition digit_char :: "nat \<Rightarrow> char" where
  "digit_char d = char_of (48 + d)"

fun FormatInt :: "nat \<Rightarrow> string" where
  "FormatInt n = (if n < 10 then [digit_char n] else FormatInt (n div 10) @ [digit_char (n mod 10)])"

declare FormatInt.simps [simp del]

text \<open>The \<^verbatim>\<open>$id\<close> block of \<^verbatim>\<open>Parse\<close> (lines 112-128): read only when the token stack is empty.\<close>

definition parse_id :: "urllib \<Rightarrow> (string \<times> json) list \<Rightarrow> parser \<Rightarrow> schema \<Rightarrow> parse_error + parser \<times> schema" where
  "parse_id lib input p s =
     (if tokens p = [] then
        (case map_of input ''$id'' of
           None \<Rightarrow> Inr (p, s)
         | Some idValue \<Rightarrow>
             (case idValue of
                JStr idStr \<Rightarrow>
                  (case url_Parse lib idStr of
                     None \<Rightarrow> Inl IdNotValidURI
                   | Some uri \<Rightarrow> Inr (p\<lparr>baseURI := uri\<rparr>, s\<lparr>ID := uri\<rparr>))
              | _ \<Rightarrow> Inl IdNotString))
      else Inr (p, s))"

text \<open>The \<^verbatim>\<open>$ref\<close> block (lines 130-154).\<close>

definition parse_ref :: "urllib \<Rightarrow> (string \<times> json) list \<Rightarrow> parser \<Rightarrow> schema \<Rightarrow> parse_error + schema" where
  "parse_ref lib input p s =
     (case map_of input ''$ref'' of
        None \<Rightarrow> Inr s
      | Some refValue \<Rightarrow>
          (case refValue of
             JStr refStr \<Rightarrow>
               (case url_Resolve lib (baseURI p) refStr of
                  None \<Rightarrow> Inl InvalidURI
                | Some uri \<Rightarrow>
                    (case ptr_New lib (Fragment uri) of
                       None \<Rightarrow> Inl RefFragmentNotPointer
                     | Some ptr \<Rightarrow>
                         Inr (s\<lparr>Ref := (Ref s)\<lparr>Ref_IsSet := True, Ref_URI := uri,
                                Ref_BaseURI := uri\<lparr>Fragment := []\<rparr>, Ref_Ptr := ptr\<rparr>\<rparr>)))
           | _ \<Rightarrow> Inl RefNotString))"

text \<open>The \<^verbatim>\<open>type\<close> block (lines 156-189); \<open>parse_types\<close> is its loop over an array.\<close>

fun parse_types :: "json list \<Rightarrow> parse_error + jsonType list" where
  "parse_types [] = Inr []"
| "parse_types (t # ts) =
     (case t of
        JStr str \<Rightarrow>
          (case parseJSONType str of
             Inl e \<Rightarrow> Inl e
           | Inr jsonTyp \<Rightarrow>
               (case parse_types ts of
                  Inl e \<Rightarrow> Inl e
                | Inr rest \<Rightarrow> Inr (jsonTyp # rest)))
      | _ \<Rightarrow> Inl InvalidTypeValue)"

definition parse_type :: "(string \<times> json) list \<Rightarrow> schema \<Rightarrow> parse_error + schema" where
  "parse_type input s =
     (case map_of input ''type'' of
        None \<Rightarrow> Inr s
      | Some typeValue \<Rightarrow>
          (case typeValue of
             JStr typ \<Rightarrow>
               (case parseJSONType typ of
                  Inl e \<Rightarrow> Inl e
                | Inr jsonTyp \<Rightarrow>
                    Inr (s\<lparr>Type := \<lparr>Type_IsSet = True, Type_IsSingle = True, Types = [jsonTyp]\<rparr>\<rparr>))
           | JArr typ \<Rightarrow>
               (case parse_types typ of
                  Inl e \<Rightarrow> Inl e
                | Inr ts \<Rightarrow>
                    Inr (s\<lparr>Type := \<lparr>Type_IsSet = True, Type_IsSingle = False, Types = ts\<rparr>\<rparr>))
           | _ \<Rightarrow> Inl InvalidTypeValue))"

text \<open>
  The keyword blocks before \<^verbatim>\<open>items\<close>, in the order of the source; the parser that
  results carries the base URI set by a root \<^verbatim>\<open>$id\<close>.
\<close>

definition parse_head :: "urllib \<Rightarrow> (string \<times> json) list \<Rightarrow> parser \<Rightarrow> parse_error + parser \<times> schema" where
  "parse_head lib input p =
     (case parse_id lib input p schema0 of
        Inl e \<Rightarrow> Inl e
      | Inr (p1, s1) \<Rightarrow>
          (case parse_ref lib input p1 s1 of
             Inl e \<Rightarrow> Inl e
           | Inr s2 \<Rightarrow>
               (case parse_type input s2 of
                  Inl e \<Rightarrow> Inl e
                | Inr s3 \<Rightarrow> Inr (p1, s3))))"

definition insert_schema :: "urllib \<Rightarrow> parser \<Rightarrow> schema \<Rightarrow> (parse_error + nat) \<times> parser" where
  "insert_schema lib p s =
     (case Insert (registry p) (URI lib p) s of
        (index, r) \<Rightarrow> (Inr index, p\<lparr>registry := r\<rparr>))"

text \<open>
  \<^verbatim>\<open>func (p *parser) Parse(input map[string]interface{}) (int, error)\<close>, with the loop
  over an \<^verbatim>\<open>items\<close> array as \<open>parse_items\<close>. An error returns at once, leaving the
  token stack and the registry as they are at that point; of the parser returned with an
  error only the registry can be observed by the caller.
\<close>

function Parse :: "urllib \<Rightarrow> (string \<times> json) list \<Rightarrow> parser \<Rightarrow> (parse_error + nat) \<times> parser"
  and parse_items :: "urllib \<Rightarrow> json list \<Rightarrow> nat \<Rightarrow> parser \<Rightarrow> (parse_error + nat list) \<times> parser"
where
  "Parse lib input p =
     (case parse_head lib input p of
        Inl e \<Rightarrow> (Inl e, p)
      | Inr (p1, s) \<Rightarrow>
          (case map_of input ''items'' of
             None \<Rightarrow> insert_schema lib p1 s
           | Some itemsValue \<Rightarrow>
               (case itemsValue of
                  JObj items \<Rightarrow>
                    (case Parse lib items (Push ''items'' p1) of
                       (Inl e, p2) \<Rightarrow> (Inl e, p2)
                     | (Inr subSchema, p2) \<Rightarrow>
                         insert_schema lib (Pop p2)
                           (s\<lparr>Items := \<lparr>Items_IsSet = True, Items_IsSingle = True,
                                          Schemas = [subSchema]\<rparr>\<rparr>))
                | JArr items \<Rightarrow>
                    (case parse_items lib items 0 (Push ''items'' p1) of
                       (Inl e, p2) \<Rightarrow> (Inl e, p2)
                     | (Inr subSchemas, p2) \<Rightarrow>
                         insert_schema lib (Pop p2)
                           (s\<lparr>Items := \<lparr>Items_IsSet = True, Items_IsSingle = False,
                                          Schemas = subSchemas\<rparr>\<rparr>))
                | _ \<Rightarrow> (Inl SchemaNotObject, p1))))"
| "parse_items lib [] i p = (Inr [], p)"
| "parse_items lib (item # rest) i p =
     (case item of
        JObj obj \<Rightarrow>
          (case Parse lib obj (Push (FormatInt i) p) of
             (Inl e, p2) \<Rightarrow> (Inl e, p2)
           | (Inr subSchema, p2) \<Rightarrow>
               (case parse_items lib rest (Suc i) (Pop p2) of
                  (Inl e, p3) \<Rightarrow> (Inl e, p3)
                | (Inr subSchemas, p3) \<Rightarrow> (Inr (subSchema # subSchemas), p3)))
      | _ \<Rightarrow> (Inl SchemaNotObject, Push (FormatInt i) p))"
  by pat_completeness auto
termination
proof -
  have looked_up: "size v < Suc (size_list (size_prod (\<lambda>_. 0) size) kvs)"
    if "map_of kvs k = Some v" for kvs :: "(string \<times> json) list" and k v
    using that by (induction kvs) (auto split: if_splits)
  show ?thesis
    by (relation "measure (\<lambda>x. case x of
            Inl (lib, input, p) \<Rightarrow> size_list (size_prod (\<lambda>_. 0) size) input
          | Inr (lib, items, i, p) \<Rightarrow> size_list size items)")
       (auto dest: looked_up)
qed

declare Parse.simps [simp del]


text \<open>\<^verbatim>\<open>parseSubSchema\<close> and \<^verbatim>\<open>parseRootSchema\<close>: a fresh parser on the shared registry.\<close>

definition parseSubSchema :: "urllib \<Rightarrow> registry \<Rightarrow> url \<Rightarrow> string list \<Rightarrow> (string \<times> json) list \<Rightarrow> (parse_error + schema) \<times> registry" where
  "parseSubSchema lib r base toks input =
     (case Parse lib input \<lparr>registry = r, baseURI = base, tokens = toks\<rparr> of
        (Inl e, p) \<Rightarrow> (Inl e, registry p)
      | (Inr index, p) \<Rightarrow>
          (case GetIndex (registry p) index of
             None \<Rightarrow> (Inr schema0, registry p)
           | Some s \<Rightarrow> (Inr s, registry p)))"

definition parseRootSchema :: "urllib \<Rightarrow> registry \<Rightarrow> (string \<times> json) list \<Rightarrow> (parse_error + schema) \<times> registry" where
  "parseRootSchema lib r input = parseSubSchema lib r emptyURL [] input"

section \<open>Numbers\<close>

text \<open>
  \<^verbatim>\<open>math.Round\<close> rounds half away from zero, \<^verbatim>\<open>math.Trunc\<close> rounds toward zero.
  \<^verbatim>\<open>math.Mod(x, y)\<close> has the sign of \<open>x\<close> and a magnitude below \<open>|y|\<close>; it is NaN
  for \<open>y = 0\<close>, which is \<open>None\<close> here.
\<close>

definition go_Round :: "rat \<Rightarrow> rat" where
  "go_Round x = (if x < 0 then - of_int \<lfloor>- x + 1 / 2\<rfloor> else of_int \<lfloor>x + 1 / 2\<rfloor>)"

definition go_Trunc :: "rat \<Rightarrow> rat" where
  "go_Trunc x = (if x < 0 then of_int \<lceil>x\<rceil> else of_int \<lfloor>x\<rfloor>)"

definition go_Mod :: "rat \<Rightarrow> rat \<Rightarrow> rat option" where
  "go_Mod x y =
     (if y = 0 then None
      else let r = \<bar>x\<bar> - \<bar>y\<bar> * of_int \<lfloor>\<bar>x\<bar> / \<bar>y\<bar>\<rfloor>
           in Some (if x < 0 then - r else r))"

text \<open>
  The arithmetic of \<^verbatim>\<open>float64\<close> (IEEE 754 binary64, which the Go specification
  prescribes): the result of \<^verbatim>\<open>x / y\<close> and of \<^verbatim>\<open>x - y\<close> is the exact result rounded
  to the nearest representable number, a tie going to the one with an even significand;
  a typed constant such as \<^verbatim>\<open>1e-3\<close> is rounded in the same way. \<^verbatim>\<open>math.Mod\<close> and
  \<^verbatim>\<open>math.Abs\<close> are exact. The representable numbers are the multiples of
  \<^verbatim>\<open>2^(e-52)\<close> between \<^verbatim>\<open>2^e\<close> and \<^verbatim>\<open>2^(e+1)\<close> in magnitude, for \<^verbatim>\<open>e\<close> from -1022 to
  1023, and the multiples of \<^verbatim>\<open>2^(-1074)\<close> below \<^verbatim>\<open>2^(-1022)\<close>. Overflow to an infinity
  is not modelled: the quotient of \<^verbatim>\<open>math.Mod(x, y)\<close> by \<open>y\<close> lies between 0 and 1,
  and \<open>1 - e\<close> of a finite \<open>e\<close> rounds to a finite number.

  \<open>bit_length n\<close> is the number of binary digits of \<open>n\<close>, \<open>ilog2 a\<close> the exponent \<open>e\<close> with
  \<^verbatim>\<open>2^e <= a < 2^(e+1)\<close> for \<open>a > 0\<close>.
\<close>

fun bit_length :: "nat \<Rightarrow> nat" where
  "bit_length n = (if n = 0 then 0 else Suc (bit_length (n div 2)))"

declare bit_length.simps [simp del]

definition ilog2 :: "rat \<Rightarrow> int" where
  "ilog2 a =
     (if 1 \<le> a then int (bit_length (nat \<lfloor>a\<rfloor>)) - 1
      else - int (bit_length (nat (\<lceil>1 / a\<rceil> - 1))))"

definition pow2 :: "int \<Rightarrow> rat" where
  "pow2 e = (if 0 \<le> e then 2 ^ nat e else 1 / 2 ^ nat (- e))"

definition round_half_even :: "rat \<Rightarrow> int" where
  "round_half_even x =
     (let f = \<lfloor>x\<rfloor>; r = x - of_int f
      in if r < 1 / 2 then f
         else if 1 / 2 < r then f + 1
         else if even f then f else f + 1)"

definition round64 :: "rat \<Rightarrow> rat" where
  "round64 x =
     (if x = 0 then 0
      else let e = max (ilog2 \<bar>x\<bar>) (- 1022); q = pow2 (e - 52)
           in sgn x * q * of_int (round_half_even (\<bar>x\<bar> / q)))"

section \<open>The executor of vm.go\<close>

record schemaStack =
  stack_id :: url
  stack_tokens :: "string list"

record stack =
  instanceTokens :: "string list"
  schemas :: "schemaStack list"

record ValidationError =
  InstancePath :: "string list"
  SchemaPath :: "string list"
  ErrorURI :: url

text \<open>
  The \<^verbatim>\<open>Schema\<close> values of the executor carry a \<^verbatim>\<open>Type\<close> with the \<^verbatim>\<open>contains\<close>
  method of parser.go; the record \<open>schema\<close> stands for them.
\<close>

record vm =
  vm_registry :: "url \<rightharpoonup> schema"
  vm_stack :: stack
  errors :: "ValidationError list"

text \<open>
  What a call can end with besides a VM: the two errors \<^verbatim>\<open>exec\<close> returns, and a
  run-time panic (an index or slice bound out of range, or an explicit \<^verbatim>\<open>panic\<close>).
\<close>

datatype vm_error = NoSchemaWithURI url | PointerError | RuntimePanic

definition pushNewSchema :: "url \<Rightarrow> string list \<Rightarrow> vm \<Rightarrow> vm" where
  "pushNewSchema uri toks m =
     m\<lparr>vm_stack := (vm_stack m)\<lparr>schemas := schemas (vm_stack m) @
          [\<lparr>stack_id = uri, stack_tokens = toks\<rparr>]\<rparr>\<rparr>"

text \<open>
  \<^verbatim>\<open>s := &vm.stack.schemas[len(vm.stack.schemas)-1]; s.tokens = append(s.tokens, token)\<close>:
  the top entry is updated in place through the pointer.
\<close>

definition pushSchemaToken :: "string \<Rightarrow> vm \<Rightarrow> vm_error + vm" where
  "pushSchemaToken token m =
     (let ss = schemas (vm_stack m) in
      if ss = [] then Inl RuntimePanic
      else Inr (m\<lparr>vm_stack := (vm_stack m)\<lparr>schemas := butlast ss @
             [(last ss)\<lparr>stack_tokens := stack_tokens (last ss) @ [token]\<rparr>]\<rparr>\<rparr>))"

text \<open>
  vm.go, lines 131-134:
  \<^verbatim>\<open>s := vm.stack.schemas[len(vm.stack.schemas)-1]; s.tokens = s.tokens[:len(s.tokens)-1]\<close>.
  Without \<^verbatim>\<open>&\<close> the assignment copies the struct, and the shortened slice is stored
  in the copy: the VM is returned as it was. The index and the slice bound are still
  evaluated, so an empty stack panics.
\<close>

definition popSchemaToken :: "vm \<Rightarrow> vm_error + vm" where
  "popSchemaToken m =
     (let ss = schemas (vm_stack m) in
      if ss = [] then Inl RuntimePanic
      else if stack_tokens (last ss) = [] then Inl RuntimePanic
      else Inr m)"

definition reportError :: "vm \<Rightarrow> vm_error + vm" where
  "reportError m =
     (let ss = schemas (vm_stack m) in
      if ss = [] then Inl RuntimePanic
      else Inr (m\<lparr>errors := errors m @
             [\<lparr>InstancePath = instanceTokens (vm_stack m),
               SchemaPath = stack_tokens (last ss),
               ErrorURI = stack_id (last ss)\<rparr>]\<rparr>))"

definition and_then :: "'e + 'a \<Rightarrow> ('a \<Rightarrow> 'e + 'b) \<Rightarrow> 'e + 'b" where
  "and_then r f = (case r of Inl e \<Rightarrow> Inl e | Inr x \<Rightarrow> f x)"

text \<open>The three lines every failing branch of \<^verbatim>\<open>execSchema\<close> runs.\<close>

definition typeError :: "vm \<Rightarrow> vm_error + vm" where
  "typeError m = and_then (and_then (pushSchemaToken ''type'' m) reportError) popSchemaToken"

text \<open>\<^verbatim>\<open>func (vm *vm) execSchema(schema Schema, instance interface{}) error\<close> of vm.go.\<close>

fun execSchema :: "schema \<Rightarrow> json \<Rightarrow> vm \<Rightarrow> vm_error + vm" where
  "execSchema schema JNull m =
     (if \<not> contains (Type schema) jsonTypeNull then typeError m else Inr m)"
| "execSchema schema (JBool val) m =
     (if \<not> contains (Type schema) jsonTypeBoolean then typeError m else Inr m)"
| "execSchema schema (JNum val) m =
     (let typeOk = (if contains (Type schema) jsonTypeInteger then val = go_Round val else False)
      in if \<not> typeOk \<and> \<not> contains (Type schema) jsonTypeNumber then typeError m else Inr m)"
| "execSchema schema (JStr val) m =
     (if \<not> contains (Type schema) jsonTypeString then typeError m else Inr m)"
| "execSchema schema (JArr val) m =
     (if \<not> contains (Type schema) jsonTypeArray then typeError m else Inr m)"
| "execSchema schema (JObj val) m =
     (if \<not> contains (Type schema) jsonTypeObject then typeError m else Inr m)"
| "execSchema schema JOther m = typeError m"

definition exec :: "urllib \<Rightarrow> url \<Rightarrow> json \<Rightarrow> vm \<Rightarrow> vm_error + vm" where
  "exec lib uri inst m =
     (let absoluteURI = uri\<lparr>Fragment := []\<rparr> in
      case vm_registry m absoluteURI of
        None \<Rightarrow> Inl (NoSchemaWithURI absoluteURI)
      | Some schema \<Rightarrow>
          (case ptr_New lib (Fragment uri) of
             None \<Rightarrow> Inl PointerError
           | Some fragTokens \<Rightarrow> execSchema schema inst (pushNewSchema absoluteURI fragTokens m)))"

section \<open>The executor with items (second listing of vm.go)\<close>

text \<open>
  The sources hold a second listing of the executor (src/validator_test.go, lines
  1020-1200), which checks \<^verbatim>\<open>items\<close> and takes the address in \<^verbatim>\<open>popSchemaToken\<close>.
  Its definitions carry the suffix 2. Its \<^verbatim>\<open>Schema\<close> type is not under src/; the
  fields are those the listing reads: \<^verbatim>\<open>Type\<close> and \<^verbatim>\<open>Items\<close> are pointers (\<open>None\<close> is
  nil), and an \<^verbatim>\<open>Items\<close> holds \<^verbatim>\<open>IsSingle\<close>, \<^verbatim>\<open>Single\<close> and \<^verbatim>\<open>List\<close> by value.
\<close>

datatype Schema2 = Schema2 (Type2: "schemaType option") (Items2: "SchemaItems2 option")
  and SchemaItems2 = SchemaItems2 (IsSingle: bool) (Single: Schema2) (ItemList: "Schema2 list")

definition popSchemaToken2 :: "vm \<Rightarrow> vm_error + vm" where
  "popSchemaToken2 m =
     (let ss = schemas (vm_stack m) in
      if ss = [] then Inl RuntimePanic
      else if stack_tokens (last ss) = [] then Inl RuntimePanic
      else Inr (m\<lparr>vm_stack := (vm_stack m)\<lparr>schemas := butlast ss @
             [(last ss)\<lparr>stack_tokens := butlast (stack_tokens (last ss))\<rparr>]\<rparr>\<rparr>))"

definition pushInstanceToken :: "string \<Rightarrow> vm \<Rightarrow> vm" where
  "pushInstanceToken token m =
     m\<lparr>vm_stack := (vm_stack m)\<lparr>instanceTokens := instanceTokens (vm_stack m) @ [token]\<rparr>\<rparr>"

definition popInstanceToken :: "vm \<Rightarrow> vm_error + vm" where
  "popInstanceToken m =
     (if instanceTokens (vm_stack m) = [] then Inl RuntimePanic
      else Inr (m\<lparr>vm_stack := (vm_stack m)\<lparr>instanceTokens := butlast (instanceTokens (vm_stack m))\<rparr>\<rparr>))"

definition typeError2 :: "vm \<Rightarrow> vm_error + vm" where
  "typeError2 m = and_then (and_then (pushSchemaToken ''type'' m) reportError) popSchemaToken2"

text \<open>The test \<^verbatim>\<open>schema.Type != nil && !schema.Type.contains(t)\<close>.\<close>

definition type_lacks :: "Schema2 \<Rightarrow> jsonType \<Rightarrow> bool" where
  "type_lacks schema t = (case Type2 schema of None \<Rightarrow> False | Some ty \<Rightarrow> \<not> contains ty t)"

text \<open>
  \<^verbatim>\<open>execSchema\<close> of the second listing. \<open>items_single\<close> is the loop
  \<^verbatim>\<open>for i, elem := range val\<close> and \<open>items_tuple\<close> the loop
  \<^verbatim>\<open>for i := 0; i < len(schema.Items.List) && i < len(val); i++\<close>, each from index \<open>i\<close>
  on. The error a nested call returns is dropped by the source (it is always nil); a
  panic unwinds the whole call.
\<close>

fun execSchema2 :: "Schema2 \<Rightarrow> json \<Rightarrow> vm \<Rightarrow> vm_error + vm"
  and items_single :: "Schema2 \<Rightarrow> nat \<Rightarrow> json list \<Rightarrow> vm \<Rightarrow> vm_error + vm"
  and items_tuple :: "Schema2 list \<Rightarrow> nat \<Rightarrow> json list \<Rightarrow> vm \<Rightarrow> vm_error + vm"
where
  "execSchema2 schema JNull m = (if type_lacks schema jsonTypeNull then typeError2 m else Inr m)"
| "execSchema2 schema (JBool val) m =
     (if type_lacks schema jsonTypeBoolean then typeError2 m else Inr m)"
| "execSchema2 schema (JNum val) m =
     (case Type2 schema of
        None \<Rightarrow> Inr m
      | Some ty \<Rightarrow>
          (let typeOk = (if contains ty jsonTypeInteger then val = go_Round val else False)
           in if \<not> typeOk \<and> \<not> contains ty jsonTypeNumber then typeError2 m else Inr m))"
| "execSchema2 schema (JStr val) m =
     (if type_lacks schema jsonTypeString then typeError2 m else Inr m)"
| "execSchema2 schema (JArr val) m =
     (case (if type_lacks schema jsonTypeArray then typeError2 m else Inr m) of
        Inl e \<Rightarrow> Inl e
      | Inr m1 \<Rightarrow>
          (case Items2 schema of
             None \<Rightarrow> Inr m1
           | Some items \<Rightarrow>
               (case pushSchemaToken ''items'' m1 of
                  Inl e \<Rightarrow> Inl e
                | Inr m2 \<Rightarrow>
                    (case (if IsSingle items then items_single (Single items) 0 val m2
                           else items_tuple (ItemList items) 0 val m2) of
                       Inl e \<Rightarrow> Inl e
                     | Inr m3 \<Rightarrow> popSchemaToken2 m3))))"
| "execSchema2 schema (JObj val) m =
     (if type_lacks schema jsonTypeObject then typeError2 m else Inr m)"
| "execSchema2 schema JOther m = Inl RuntimePanic"
| "items_single single i [] m = Inr m"
| "items_single single i (elem # rest) m =
     (case execSchema2 single elem (pushInstanceToken (FormatInt i) m) of
        Inl e \<Rightarrow> Inl e
      | Inr m1 \<Rightarrow>
          (case popInstanceToken m1 of
             Inl e \<Rightarrow> Inl e
           | Inr m2 \<Rightarrow> items_single single (Suc i) rest m2))"
| "items_tuple [] i val m = Inr m"
| "items_tuple (s # ss) i [] m = Inr m"
| "items_tuple (s # ss) i (elem # rest) m =
     (case pushSchemaToken (FormatInt i) (pushInstanceToken (FormatInt i) m) of
        Inl e \<Rightarrow> Inl e
      | Inr m1 \<Rightarrow>
          (case execSchema2 s elem m1 of
             Inl e \<Rightarrow> Inl e
           | Inr m2 \<Rightarrow>
               (case popInstanceToken m2 of
                  Inl e \<Rightarrow> Inl e
                | Inr m3 \<Rightarrow>
                    (case popSchemaToken2 m3 of
                       Inl e \<Rightarrow> Inl e
                     | Inr m4 \<Rightarrow> items_tuple ss (Suc i) rest m4))))"


section \<open>The validator with IsValid (second listing of parser.go)\<close>

text \<open>
  src/parser.go holds a second file (lines 260-418): a \<^verbatim>\<open>Validator\<close> over one schema
  with \<^verbatim>\<open>IsValid\<close>. Its \<^verbatim>\<open>Schema\<close>, document and \<^verbatim>\<open>SimpleType\<close> declarations are not
  under src/; the records hold the fields \<^verbatim>\<open>IsValid\<close> reads, a nil pointer being
  \<open>None\<close>. regexp and unicode/utf8 are libraries outside the repository and are taken as
  a parameter: \<open>regexp_Compile\<close> returns the matcher of a pattern (\<^verbatim>\<open>re.MatchString\<close>),
  or \<open>None\<close> for the error of \<^verbatim>\<open>regexp.Compile\<close>.
\<close>

record strlib =
  regexp_Compile :: "string \<Rightarrow> (string \<Rightarrow> bool) option"
  RuneCountInString :: "string \<Rightarrow> nat"

datatype SimpleType =
    IntegerSimpleType
  | NumberSimpleType
  | StringSimpleType
  | ObjectSimpleType
  | ArraySimpleType
  | BooleanSimpleType
  | NullSimpleType

record DocumentType =
  DocType_IsSingle :: bool
  DocType_Single :: SimpleType
  DocType_List :: "SimpleType list"

record Document =
  Minimum :: "rat option"
  ExclusiveMinimum :: "rat option"
  Maximum :: "rat option"
  ExclusiveMaximum :: "rat option"
  MultipleOf :: "rat option"
  MaxLength :: "int option"
  MinLength :: "int option"
  Pattern :: "string option"
  DocType :: "DocumentType option"

record DocSchema =
  IsTrivial :: bool
  TrivialValue :: bool
  Doc :: Document

record Validator =
  validator_schema :: DocSchema
  Epsilon :: rat

text \<open>\<^verbatim>\<open>const DefaultEpsilon float64 = 1e-3\<close>: the \<^verbatim>\<open>float64\<close> nearest to one thousandth.\<close>

definition DefaultEpsilon :: rat where
  "DefaultEpsilon = round64 (1 / 1000)"

definition NewValidator :: "DocSchema \<Rightarrow> Validator" where
  "NewValidator sch = \<lparr>validator_schema = sch, Epsilon = DefaultEpsilon\<rparr>"

fun assertSimpleType :: "SimpleType \<Rightarrow> json \<Rightarrow> bool" where
  "assertSimpleType IntegerSimpleType data =
     (case data of JNum num \<Rightarrow> \<not> (num \<noteq> go_Trunc num) | _ \<Rightarrow> False)"
| "assertSimpleType NumberSimpleType data = (case data of JNum num \<Rightarrow> True | _ \<Rightarrow> False)"
| "assertSimpleType StringSimpleType data = (case data of JStr str \<Rightarrow> True | _ \<Rightarrow> False)"
| "assertSimpleType ObjectSimpleType data = (case data of JObj obj \<Rightarrow> True | _ \<Rightarrow> False)"
| "assertSimpleType ArraySimpleType data = (case data of JArr arr \<Rightarrow> True | _ \<Rightarrow> False)"
| "assertSimpleType BooleanSimpleType data = (case data of JBool b \<Rightarrow> True | _ \<Rightarrow> False)"
| "assertSimpleType NullSimpleType data = (data = JNull)"

text \<open>
  The checks of \<^verbatim>\<open>IsValid\<close>, one definition per \<^verbatim>\<open>if\<close> block of the source, each true
  when its block returns false.
\<close>

definition minimum_fails :: "Document \<Rightarrow> json \<Rightarrow> bool" where
  "minimum_fails document data =
     (case Minimum document of None \<Rightarrow> False
      | Some b \<Rightarrow> (case data of JNum num \<Rightarrow> num < b | _ \<Rightarrow> False))"

definition exclusiveMinimum_fails :: "Document \<Rightarrow> json \<Rightarrow> bool" where
  "exclusiveMinimum_fails document data =
     (case ExclusiveMinimum document of None \<Rightarrow> False
      | Some b \<Rightarrow> (case data of JNum num \<Rightarrow> num \<le> b | _ \<Rightarrow> False))"

definition maximum_fails :: "Document \<Rightarrow> json \<Rightarrow> bool" where
  "maximum_fails document data =
     (case Maximum document of None \<Rightarrow> False
      | Some b \<Rightarrow> (case data of JNum num \<Rightarrow> num > b | _ \<Rightarrow> False))"

definition exclusiveMaximum_fails :: "Document \<Rightarrow> json \<Rightarrow> bool" where
  "exclusiveMaximum_fails document data =
     (case ExclusiveMaximum document of None \<Rightarrow> False
      | Some b \<Rightarrow> (case data of JNum num \<Rightarrow> num \<ge> b | _ \<Rightarrow> False))"

text \<open>
  Lines 322-330; \<open>m\<close> is the source's \<^verbatim>\<open>mod\<close>, the rounded quotient of the exact
  \<^verbatim>\<open>math.Mod\<close> by the divisor, compared with \<^verbatim>\<open>v.Epsilon\<close> and with the rounded
  difference \<^verbatim>\<open>1-v.Epsilon\<close>. For a zero divisor \<^verbatim>\<open>math.Mod\<close> is NaN, both comparisons
  are false and the block does not return.
\<close>

definition multipleOf_fails :: "rat \<Rightarrow> Document \<Rightarrow> json \<Rightarrow> bool" where
  "multipleOf_fails eps document data =
     (case MultipleOf document of None \<Rightarrow> False
      | Some d \<Rightarrow>
          (case data of
             JNum num \<Rightarrow>
               (case go_Mod \<bar>num\<bar> d of
                  None \<Rightarrow> False
                | Some r \<Rightarrow> (let m = round64 (r / d) in m > eps \<and> m < round64 (1 - eps)))
           | _ \<Rightarrow> False))"

definition maxLength_fails :: "strlib \<Rightarrow> Document \<Rightarrow> json \<Rightarrow> bool" where
  "maxLength_fails lib document data =
     (case MaxLength document of None \<Rightarrow> False
      | Some n \<Rightarrow> (case data of JStr str \<Rightarrow> int (RuneCountInString lib str) > n | _ \<Rightarrow> False))"

definition minLength_fails :: "strlib \<Rightarrow> Document \<Rightarrow> json \<Rightarrow> bool" where
  "minLength_fails lib document data =
     (case MinLength document of None \<Rightarrow> False
      | Some n \<Rightarrow> (case data of JStr str \<Rightarrow> int (RuneCountInString lib str) < n | _ \<Rightarrow> False))"

text \<open>
  Lines 348-361: the pattern is compiled when an instance is validated, and a pattern
  that does not compile panics (\<open>None\<close>). \<open>Some True\<close> is the block returning false.
\<close>

definition pattern_fails :: "strlib \<Rightarrow> Document \<Rightarrow> json \<Rightarrow> bool option" where
  "pattern_fails lib document data =
     (case Pattern document of None \<Rightarrow> Some False
      | Some pat \<Rightarrow>
          (case data of
             JStr str \<Rightarrow>
               (case regexp_Compile lib pat of
                  None \<Rightarrow> None
                | Some re \<Rightarrow> Some (\<not> re str))
           | _ \<Rightarrow> Some False))"

definition type_fails :: "Document \<Rightarrow> json \<Rightarrow> bool" where
  "type_fails document data =
     (case DocType document of None \<Rightarrow> False
      | Some t \<Rightarrow>
          (if DocType_IsSingle t then \<not> assertSimpleType (DocType_Single t) data
           else list_all (\<lambda>simpleType. \<not> assertSimpleType simpleType data) (DocType_List t)))"

text \<open>\<^verbatim>\<open>func (v Validator) IsValid(data interface{}) bool\<close>; \<open>None\<close> is the panic.\<close>

definition IsValid :: "strlib \<Rightarrow> Validator \<Rightarrow> json \<Rightarrow> bool option" where
  "IsValid lib v data =
     (if IsTrivial (validator_schema v) then Some (TrivialValue (validator_schema v))
      else let document = Doc (validator_schema v) in
        if minimum_fails document data then Some False
        else if exclusiveMinimum_fails document data then Some False
        else if maximum_fails document data then Some False
        else if exclusiveMaximum_fails document data then Some False
        else if multipleOf_fails (Epsilon v) document data then Some False
        else if maxLength_fails lib document data then Some False
        else if minLength_fails lib document data then Some False
        else (case pattern_fails lib document data of
                None \<Rightarrow> None
              | Some True \<Rightarrow> Some False
              | Some False \<Rightarrow> if type_fails document data then Some False else Some True))"

text \<open>A document with no keyword set, and the schema that wraps a document.\<close>

definition Document0 :: Document where
  "Document0 =
     \<lparr>Minimum = None, ExclusiveMinimum = None, Maximum = None, ExclusiveMaximum = None,
      MultipleOf = None, MaxLength = None, MinLength = None, Pattern = None, DocType = None\<rparr>"

definition schema_of :: "Document \<Rightarrow> DocSchema" where
  "schema_of document = \<lparr>IsTrivial = False, TrivialValue = False, Doc = document\<rparr>"


section \<open>Building a validator, sealing, and validation under limits\<close>

text \<open>
  \<^verbatim>\<open>NewValidatorWithConfig\<close>, the seal pass, \<^verbatim>\<open>Validate\<close> and the executor that follows
  \<^verbatim>\<open>$ref\<close> under \<^verbatim>\<open>MaxStackDepth\<close> and \<^verbatim>\<open>MaxErrors\<close> are code of the repository that is not
  under src/; only their tests are (TestValidatorSeal, TestValidatorOverflow,
  TestValidatorMaxErrors in src/validator_test.go). The definitions of this section are
  modelled from sections 4.2, 4.3, 6 and 7 of the specification. They work on the
  registry that \<open>Parse\<close> fills and cover the keywords \<open>Parse\<close> reads: \<^verbatim>\<open>$ref\<close>, \<^verbatim>\<open>type\<close>
  and \<^verbatim>\<open>items\<close>.
\<close>

text \<open>
  Modelled from the spec: the error values of the build and of a validation call are not
  under src/; section 7 lists them (schema errors, missing references, stack overflow,
  no such schema), with the names the tests use. \<open>ErrPanic\<close> stands for a run-time panic.
\<close>

datatype validator_error =
    ErrInvalidSchema
  | ErrMissingURIs "url list"
  | ErrStackOverflow
  | ErrNoSuchSchema
  | ErrPanic

text \<open>
  Modelled from the spec: \<^verbatim>\<open>ValidatorConfig\<close> is not under src/; section 4.3 gives
  \<^verbatim>\<open>MaxErrors\<close> and \<^verbatim>\<open>MaxStackDepth\<close> (and \<^verbatim>\<open>Epsilon\<close>, which no keyword here uses).
\<close>

record ValidatorConfig =
  MaxErrors :: nat
  MaxStackDepth :: nat

text \<open>
  Modelled from the spec: lookup by URI is not under src/. Section 4.2: \<^verbatim>\<open>resolve(uri)\<close>
  gives the node registered under the URI or not-found; a URI inserted again overlays the
  earlier node (section 3), so the last insertion is found.
\<close>

definition Get :: "registry \<Rightarrow> url \<Rightarrow> schema option" where
  "Get r uri = map_of (rev r) uri"

text \<open>
  Modelled from the spec: the seal pass is not under src/. Section 4.2: it iterates every
  inserted node in insertion order and, for every \<^verbatim>\<open>$ref\<close> present, checks whether a node
  is registered under the reference's absolute target (without fragment); missing targets
  are collected into an ordered list, in the insertion order of the referencing nodes,
  without deduplication; a non-empty list fails the build with that list.
\<close>

fun seal_loop :: "registry \<Rightarrow> (url \<times> schema) list \<Rightarrow> url list \<Rightarrow> url list" where
  "seal_loop r [] missing = missing"
| "seal_loop r (node # rest) missing =
     (let s = snd node in
      if Ref_IsSet (Ref s) \<and> Get r (Ref_BaseURI (Ref s)) = None
      then seal_loop r rest (missing @ [Ref_BaseURI (Ref s)])
      else seal_loop r rest missing)"

definition Seal :: "registry \<Rightarrow> validator_error + registry" where
  "Seal r = (let missing = seal_loop r r [] in
             if missing = [] then Inr r else Inl (ErrMissingURIs missing))"

text \<open>
  Modelled from the spec: the build is not under src/. Section 6: every document of the
  ordered sequence is parsed as a root with an empty base URI, into one registry, and the
  first structural error fails the build.
\<close>

fun parse_documents :: "urllib \<Rightarrow> (string \<times> json) list list \<Rightarrow> registry \<Rightarrow> parse_error + registry" where
  "parse_documents lib [] r = Inr r"
| "parse_documents lib (d # ds) r =
     (case parseRootSchema lib r d of
        (Inl e, r1) \<Rightarrow> Inl e
      | (Inr s, r1) \<Rightarrow> parse_documents lib ds r1)"

text \<open>
  Modelled from the spec: section 6, "validates against the first/root document". The
  root node of the first document is what \<^verbatim>\<open>parseRootSchema\<close> returns for it on the
  registry that is still empty.
\<close>

definition first_root :: "urllib \<Rightarrow> (string \<times> json) list list \<Rightarrow> schema option" where
  "first_root lib ds =
     (case ds of
        [] \<Rightarrow> None
      | d # rest \<Rightarrow> (case parseRootSchema lib [] d of (Inl e, r) \<Rightarrow> None | (Inr s, r) \<Rightarrow> Some s))"

text \<open>
  Modelled from the spec: the validator that \<^verbatim>\<open>NewValidatorWithConfig\<close> returns is not
  under src/: the sealed registry, the root and the configuration (sections 4.3 and 6).
\<close>

record SealedValidator =
  sealed_registry :: registry
  sealed_root :: "schema option"
  sealed_config :: ValidatorConfig

text \<open>
  Modelled from the spec: \<^verbatim>\<open>NewValidatorWithConfig\<close> is not under src/. Section 6: parse
  the documents, then seal; the build fails as a whole on a structural error or on
  unresolved references.
\<close>

definition NewValidatorWithConfig :: "urllib \<Rightarrow> (string \<times> json) list list \<Rightarrow> ValidatorConfig \<Rightarrow> validator_error + SealedValidator" where
  "NewValidatorWithConfig lib ds cfg =
     (case parse_documents lib ds [] of
        Inl e \<Rightarrow> Inl ErrInvalidSchema
      | Inr r \<Rightarrow>
          (case Seal r of
             Inl e \<Rightarrow> Inl e
           | Inr r1 \<Rightarrow>
               Inr \<lparr>sealed_registry = r1, sealed_root = first_root lib ds, sealed_config = cfg\<rparr>))"

text \<open>
  Modelled from the spec: what aborts a validation call (section 7): the stack overflow, a
  reference that does not resolve, and a run-time panic of the stack operations.
\<close>

datatype halt = StackOverflow | NoSuchSchema | Crashed

definition lift :: "vm_error + vm \<Rightarrow> halt + vm" where
  "lift r = (case r of Inl e \<Rightarrow> Inl Crashed | Inr m \<Rightarrow> Inr m)"

text \<open>
  Modelled from the spec: leaving a referenced schema pops the schema-stack entry that
  entering it pushed (section 4.3, one stack per open schema context).
\<close>

definition popSchema :: "vm \<Rightarrow> halt + vm" where
  "popSchema m =
     (if schemas (vm_stack m) = [] then Inl Crashed
      else Inr (m\<lparr>vm_stack := (vm_stack m)\<lparr>schemas := butlast (schemas (vm_stack m))\<rparr>\<rparr>))"

text \<open>
  Modelled from the spec: recording an error under \<^verbatim>\<open>MaxErrors\<close> is not under src/.
  Section 4.3: "once \<^verbatim>\<open>len(errors) == MaxErrors\<close>, no new errors are appended, but
  traversal mechanics (recursion, depth counting) continue unaffected". Below the cap the
  error is recorded as \<^verbatim>\<open>reportError\<close> of vm.go records it, with a snapshot of both
  stacks; at the cap the VM goes on as it is.

  The only code of the repository on the cap that is under src/ is TestValidatorMaxErrors
  (src/validator_test.go, lines 936-970), on a schema with \<^verbatim>\<open>allOf\<close>, which \<open>Parse\<close> does
  not read. It expects five errors and no failure from a schema that records one error
  and follows \<^verbatim>\<open>"$ref": "#"\<close> at every level, under \<^verbatim>\<open>MaxErrors: 5\<close> and
  \<^verbatim>\<open>MaxStackDepth: 10\<close>; the sentence of section 4.3, which this definition follows,
  gives the stack overflow for such a schema.
\<close>

definition report_capped :: "ValidatorConfig \<Rightarrow> vm \<Rightarrow> halt + vm" where
  "report_capped cfg m =
     (if length (errors m) = MaxErrors cfg then Inr m else lift (reportError m))"

text \<open>
  Modelled from the spec: section 4.3, \<^verbatim>\<open>type\<close>: the instance is valid if its runtime tag
  is in the set; a number also satisfies \<^verbatim>\<open>integer\<close> iff it equals its own rounding. The
  check is made when the keyword is present, and a failure is reported at the token
  \<^verbatim>\<open>type\<close>, pushed before and popped after.
\<close>

fun type_accepts :: "schemaType \<Rightarrow> json \<Rightarrow> bool" where
  "type_accepts t JNull = contains t jsonTypeNull"
| "type_accepts t (JBool val) = contains t jsonTypeBoolean"
| "type_accepts t (JNum val) =
     (contains t jsonTypeNumber \<or> (contains t jsonTypeInteger \<and> val = go_Round val))"
| "type_accepts t (JStr val) = contains t jsonTypeString"
| "type_accepts t (JArr val) = contains t jsonTypeArray"
| "type_accepts t (JObj val) = contains t jsonTypeObject"
| "type_accepts t JOther = False"

definition type_step :: "ValidatorConfig \<Rightarrow> schema \<Rightarrow> json \<Rightarrow> vm \<Rightarrow> halt + vm" where
  "type_step cfg s inst m =
     (if Type_IsSet (Type s) \<and> \<not> type_accepts (Type s) inst
      then and_then (and_then (lift (pushSchemaToken ''type'' m)) (report_capped cfg))
             (\<lambda>m1. lift (popSchemaToken2 m1))
      else Inr m)"

text \<open>
  Modelled from the spec: the executor with \<^verbatim>\<open>$ref\<close> and the depth limit is not under
  src/. Section 4.3: resolving a reference (at validation time, by URI) pushes a new
  schema-stack entry with an empty token list, increments the depth and recurses into the
  target with the same instance and instance path; exceeding \<^verbatim>\<open>MaxStackDepth\<close> aborts the
  whole call with the stack-overflow failure. \<^verbatim>\<open>items\<close> is one sub-schema for every
  element, or a tuple applied by position; sub-schemas are read from the registry by
  index, and an index that is not in the registry is a panic.

  \<open>run cfg r depth s inst m\<close> validates \<open>inst\<close> against the node \<open>s\<close> at depth \<open>depth\<close>;
  \<open>run_single\<close> and \<open>run_tuple\<close> are the two loops of \<^verbatim>\<open>items\<close>, with the pushes and pops
  of the executor's second listing. The function is total: a call either descends into
  the instance or, at a \<^verbatim>\<open>$ref\<close>, uses up one level of the remaining depth.
\<close>

function run :: "ValidatorConfig \<Rightarrow> registry \<Rightarrow> nat \<Rightarrow> schema \<Rightarrow> json \<Rightarrow> vm \<Rightarrow> halt + vm"
  and run_single :: "ValidatorConfig \<Rightarrow> registry \<Rightarrow> nat \<Rightarrow> schema \<Rightarrow> nat \<Rightarrow> json list \<Rightarrow> vm \<Rightarrow> halt + vm"
  and run_tuple :: "ValidatorConfig \<Rightarrow> registry \<Rightarrow> nat \<Rightarrow> nat list \<Rightarrow> nat \<Rightarrow> json list \<Rightarrow> vm \<Rightarrow> halt + vm"
where
  "run cfg r depth s inst m =
     (case (if Ref_IsSet (Ref s) then
              (case Get r (Ref_URI (Ref s)) of
                 None \<Rightarrow> Inl NoSuchSchema
               | Some target \<Rightarrow>
                   if MaxStackDepth cfg \<le> depth then Inl StackOverflow
                   else (case run cfg r (Suc depth) target inst
                                 (pushNewSchema (Ref_BaseURI (Ref s)) [] m) of
                           Inl h \<Rightarrow> Inl h
                         | Inr m1 \<Rightarrow> popSchema m1))
            else Inr m) of
        Inl h \<Rightarrow> Inl h
      | Inr m1 \<Rightarrow>
          (case type_step cfg s inst m1 of
             Inl h \<Rightarrow> Inl h
           | Inr m2 \<Rightarrow>
               (case inst of
                  JArr val \<Rightarrow>
                    if Items_IsSet (Items s) then
                      (case lift (pushSchemaToken ''items'' m2) of
                         Inl h \<Rightarrow> Inl h
                       | Inr m3 \<Rightarrow>
                           (case (if Items_IsSingle (Items s) then
                                    (case Schemas (Items s) of
                                       [] \<Rightarrow> Inl Crashed
                                     | c # cs \<Rightarrow>
                                         (case GetIndex r c of
                                            None \<Rightarrow> Inl Crashed
                                          | Some single \<Rightarrow> run_single cfg r depth single 0 val m3))
                                  else run_tuple cfg r depth (Schemas (Items s)) 0 val m3) of
                              Inl h \<Rightarrow> Inl h
                            | Inr m4 \<Rightarrow> lift (popSchemaToken2 m4)))
                    else Inr m2
                | _ \<Rightarrow> Inr m2)))"
| "run_single cfg r depth single i [] m = Inr m"
| "run_single cfg r depth single i (elem # rest) m =
     (case run cfg r depth single elem (pushInstanceToken (FormatInt i) m) of
        Inl h \<Rightarrow> Inl h
      | Inr m1 \<Rightarrow>
          (case lift (popInstanceToken m1) of
             Inl h \<Rightarrow> Inl h
           | Inr m2 \<Rightarrow> run_single cfg r depth single (Suc i) rest m2))"
| "run_tuple cfg r depth [] i val m = Inr m"
| "run_tuple cfg r depth (c # cs) i [] m = Inr m"
| "run_tuple cfg r depth (c # cs) i (elem # rest) m =
     (case GetIndex r c of
        None \<Rightarrow> Inl Crashed
      | Some sub \<Rightarrow>
          (case lift (pushSchemaToken (FormatInt i) (pushInstanceToken (FormatInt i) m)) of
             Inl h \<Rightarrow> Inl h
           | Inr m1 \<Rightarrow>
               (case run cfg r depth sub elem m1 of
                  Inl h \<Rightarrow> Inl h
                | Inr m2 \<Rightarrow>
                    (case lift (popInstanceToken m2) of
                       Inl h \<Rightarrow> Inl h
                     | Inr m3 \<Rightarrow>
                         (case lift (popSchemaToken2 m3) of
                            Inl h \<Rightarrow> Inl h
                          | Inr m4 \<Rightarrow> run_tuple cfg r depth cs (Suc i) rest m4)))))"
  by pat_completeness auto
termination
  by (relation "inv_image (less_than <*lex*> less_than) (\<lambda>x. case x of
          Inl (cfg, r, depth, s, inst, m) \<Rightarrow> (size inst, MaxStackDepth cfg - depth)
        | Inr (Inl (cfg, r, depth, single, i, val, m)) \<Rightarrow> (size_list size val, 0)
        | Inr (Inr (cfg, r, depth, cs, i, val, m)) \<Rightarrow> (size_list size val, 0))")
     auto

declare run.simps [simp del]

text \<open>
  Modelled from the spec: \<^verbatim>\<open>Validate\<close> is not under src/. Section 6: it validates the
  instance against the root of the first document and returns the list of violations, or
  the failure that aborted the call. The VM starts in the root schema with empty stacks,
  as \<^verbatim>\<open>exec\<close> of vm.go enters a schema.
\<close>

definition initial_vm :: "registry \<Rightarrow> schema \<Rightarrow> vm" where
  "initial_vm r rt =
     \<lparr>vm_registry = Get r,
      vm_stack = \<lparr>instanceTokens = [], schemas = [\<lparr>stack_id = ID rt, stack_tokens = []\<rparr>]\<rparr>,
      errors = []\<rparr>"

definition Validate :: "SealedValidator \<Rightarrow> json \<Rightarrow> validator_error + ValidationError list" where
  "Validate v inst =
     (case sealed_root v of
        None \<Rightarrow> Inl ErrNoSuchSchema
      | Some rt \<Rightarrow>
          (case run (sealed_config v) (sealed_registry v) 0 rt inst
                  (initial_vm (sealed_registry v) rt) of
             Inl StackOverflow \<Rightarrow> Inl ErrStackOverflow
           | Inl NoSuchSchema \<Rightarrow> Inl ErrNoSuchSchema
           | Inl Crashed \<Rightarrow> Inl ErrPanic
           | Inr m \<Rightarrow> Inr (errors m)))"

section \<open>A small instance of the URL and pointer library\<close>

text \<open>
  For closed examples the library parameter needs a value. \<open>std\<close> reads the URLs the
  tests use: an optional \<^verbatim>\<open>http://host\<close>, a path, and a fragment after \<^verbatim>\<open>#\<close>; a
  reference with a scheme replaces the base, one without keeps the base and takes the
  reference's fragment (and its path, when it has one). A pointer is split at \<^verbatim>\<open>/\<close>.
  It stands for net/url and json-pointer on these inputs only; no general theorem below
  depends on it.
\<close>

definition simple_url_Parse :: "string \<Rightarrow> url option" where
  "simple_url_Parse str =
     (let rest = takeWhile (\<lambda>c. c \<noteq> CHR ''#'') str;
          frag = drop 1 (dropWhile (\<lambda>c. c \<noteq> CHR ''#'') str)
      in if take 7 rest = ''http://''
         then Some \<lparr>Scheme = ''http'',
                    Host = takeWhile (\<lambda>c. c \<noteq> CHR ''/'') (drop 7 rest),
                    Path = dropWhile (\<lambda>c. c \<noteq> CHR ''/'') (drop 7 rest),
                    RawQuery = [], Fragment = frag\<rparr>
         else Some \<lparr>Scheme = [], Host = [], Path = rest, RawQuery = [], Fragment = frag\<rparr>)"

definition simple_url_Resolve :: "url \<Rightarrow> string \<Rightarrow> url option" where
  "simple_url_Resolve base ref =
     (case simple_url_Parse ref of
        None \<Rightarrow> None
      | Some u \<Rightarrow>
          Some (if Scheme u \<noteq> [] then u
                else if Path u = [] then base\<lparr>Fragment := Fragment u\<rparr>
                else base\<lparr>Path := Path u, RawQuery := [], Fragment := Fragment u\<rparr>))"

fun split_slash :: "string \<Rightarrow> string \<Rightarrow> string list" where
  "split_slash acc [] = [rev acc]"
| "split_slash acc (c # cs) =
     (if c = CHR ''/'' then rev acc # split_slash [] cs else split_slash (c # acc) cs)"

definition simple_ptr_New :: "string \<Rightarrow> string list option" where
  "simple_ptr_New str =
     (case str of
        [] \<Rightarrow> Some []
      | c # cs \<Rightarrow> if c = CHR ''/'' then Some (split_slash [] cs) else None)"

definition simple_ptr_String :: "string list \<Rightarrow> string" where
  "simple_ptr_String toks = concat (map (\<lambda>t. CHR ''/'' # t) toks)"

definition std :: urllib where
  "std = \<lparr>url_Parse = simple_url_Parse, url_Resolve = simple_url_Resolve,
          ptr_New = simple_ptr_New, ptr_String = simple_ptr_String\<rparr>"


section \<open>Notions of the specification and example inputs\<close>

text \<open>
  The runtime tag of an instance, in the specification's words: one of the six JSON
  shapes; a Go value of another shape has none.
\<close>

fun spec_tag :: "json \<Rightarrow> jsonType option" where
  "spec_tag JNull = Some jsonTypeNull"
| "spec_tag (JBool b) = Some jsonTypeBoolean"
| "spec_tag (JNum x) = Some jsonTypeNumber"
| "spec_tag (JStr str) = Some jsonTypeString"
| "spec_tag (JArr xs) = Some jsonTypeArray"
| "spec_tag (JObj kvs) = Some jsonTypeObject"
| "spec_tag JOther = None"

text \<open>
  The type check of vm.go passes when \<^verbatim>\<open>execSchema\<close> returns without a panic and has
  recorded no error.
\<close>

definition type_check_passes :: "schema \<Rightarrow> json \<Rightarrow> vm \<Rightarrow> bool" where
  "type_check_passes s i m =
     (case execSchema s i m of Inl e \<Rightarrow> False | Inr m' \<Rightarrow> errors m' = errors m)"

text \<open>The specification's \<open>x mod d\<close> for a non-negative \<open>x\<close> and a positive \<open>d\<close>.\<close>

definition spec_mod :: "rat \<Rightarrow> rat \<Rightarrow> rat" where
  "spec_mod x d = x - d * of_int \<lfloor>x / d\<rfloor>"

text \<open>
  One round of the tuple loop of the second listing (lines 1139-1144): position \<open>k\<close> of
  the instance array against the sub-schema \<open>s\<close>.
\<close>

definition tuple_position :: "Schema2 \<Rightarrow> nat \<Rightarrow> json \<Rightarrow> vm \<Rightarrow> vm_error + vm" where
  "tuple_position s k elem m =
     and_then (and_then (and_then
       (pushSchemaToken (FormatInt k) (pushInstanceToken (FormatInt k) m))
       (execSchema2 s elem)) popInstanceToken) popSchemaToken2"

text \<open>A VM that has entered a schema with no \<^verbatim>\<open>$id\<close>, as \<^verbatim>\<open>exec\<close> leaves it before \<^verbatim>\<open>execSchema\<close>.\<close>

definition vm_start :: vm where
  "vm_start =
     \<lparr>vm_registry = Map.empty,
      vm_stack = \<lparr>instanceTokens = [], schemas = [\<lparr>stack_id = emptyURL, stack_tokens = []\<rparr>]\<rparr>,
      errors = []\<rparr>"

text \<open>The schema \<^verbatim>\<open>{"type": t}\<close> as \<open>Parse\<close> builds it, and its form in the second listing.\<close>

definition schema_of_type :: "jsonType \<Rightarrow> schema" where
  "schema_of_type t = schema0\<lparr>Type := \<lparr>Type_IsSet = True, Type_IsSingle = True, Types = [t]\<rparr>\<rparr>"

definition Schema2_of_type :: "jsonType \<Rightarrow> Schema2" where
  "Schema2_of_type t = Schema2 (Some \<lparr>Type_IsSet = True, Type_IsSingle = True, Types = [t]\<rparr>) None"

text \<open>\<^verbatim>\<open>{"items": [{"type": "null"}, {"type": "null"}]}\<close> in the second listing.\<close>

definition Schema2_null_pair :: Schema2 where
  "Schema2_null_pair =
     Schema2 None (Some (SchemaItems2 False (Schema2 None None)
       [Schema2_of_type jsonTypeNull, Schema2_of_type jsonTypeNull]))"

text \<open>
  A value for the regexp and utf8 parameter in closed examples: \<^verbatim>\<open>[[[\<close>, the pattern of
  the test "non-regexp pattern value", does not compile; any other pattern compiles to a
  matcher that accepts; strings are counted by their bytes.
\<close>

definition strlib_example :: strlib where
  "strlib_example =
     \<lparr>regexp_Compile = (\<lambda>pat. if pat = ''[[['' then None else Some (\<lambda>str. True)),
      RuneCountInString = length\<rparr>"

text \<open>
  Facts about the nodes of a registry. \<open>ref_ok\<close>: the reference's \<^verbatim>\<open>BaseURI\<close> is its
  \<^verbatim>\<open>URI\<close> with the fragment removed. \<open>grows r r'\<close>: \<open>r'\<close> is \<open>r\<close> followed by new nodes,
  every new node is \<open>ref_ok\<close>, and the sub-schema indices of a new node are indices of
  new nodes inserted before it.
\<close>

definition ref_ok :: "schema \<Rightarrow> bool" where
  "ref_ok s = (Ref_BaseURI (Ref s) = (Ref_URI (Ref s))\<lparr>Fragment := []\<rparr>)"

definition grows :: "registry \<Rightarrow> registry \<Rightarrow> bool" where
  "grows r r' =
     ((\<exists>new. r' = r @ new \<and> (\<forall>node \<in> set new. ref_ok (snd node))) \<and>
      (\<forall>k. length r \<le> k \<and> k < length r' \<longrightarrow>
           (\<forall>c \<in> set (Schemas (Items (snd (r' ! k)))). length r \<le> c \<and> c < k)))"

text \<open>
  The parse tree of a document, in the words of the specification. \<open>count_schemas\<close> is
  the number of schema objects of a document: the object itself and the schema objects
  under its \<^verbatim>\<open>items\<close>, an object or an array of objects. \<open>layout start toks input\<close>
  lists them in post-order, the schemas under \<^verbatim>\<open>items\<close> from left to right before the
  object that holds them, each as a triple: the JSON pointer tokens of the object, when
  \<open>toks\<close> are those of \<open>input\<close>; the object; and the registry indices of its own
  sub-schemas, when the first object of the list gets the index \<open>start\<close> and every
  further one the next index. \<open>item_roots\<close> gives the indices of the schemas of an
  \<^verbatim>\<open>items\<close> array: each is the last of its own part of the list.
\<close>

function count_schemas :: "(string \<times> json) list \<Rightarrow> nat"
  and count_items :: "json list \<Rightarrow> nat"
where
  "count_schemas input =
     Suc (case map_of input ''items'' of
            Some (JObj obj) \<Rightarrow> count_schemas obj
          | Some (JArr arr) \<Rightarrow> count_items arr
          | _ \<Rightarrow> 0)"
| "count_items [] = 0"
| "count_items (item # rest) =
     (case item of JObj obj \<Rightarrow> count_schemas obj | _ \<Rightarrow> 0) + count_items rest"
  by pat_completeness auto
termination
proof -
  have looked_up: "size v < Suc (size_list (size_prod (\<lambda>_. 0) size) kvs)"
    if "map_of kvs k = Some v" for kvs :: "(string \<times> json) list" and k v
    using that by (induction kvs) (auto split: if_splits)
  show ?thesis
    by (relation "measure (\<lambda>x. case x of
            Inl input \<Rightarrow> size_list (size_prod (\<lambda>_. 0) size) input
          | Inr items \<Rightarrow> size_list size items)")
       (auto dest: looked_up)
qed

declare count_schemas.simps [simp del]

fun item_roots :: "nat \<Rightarrow> json list \<Rightarrow> nat list" where
  "item_roots start [] = []"
| "item_roots start (item # rest) =
     (case item of
        JObj obj \<Rightarrow> (start + count_schemas obj - 1) # item_roots (start + count_schemas obj) rest
      | _ \<Rightarrow> item_roots start rest)"

function layout :: "nat \<Rightarrow> string list \<Rightarrow> (string \<times> json) list \<Rightarrow>
                      (string list \<times> (string \<times> json) list \<times> nat list) list"
  and item_layout :: "nat \<Rightarrow> string list \<Rightarrow> nat \<Rightarrow> json list \<Rightarrow>
                      (string list \<times> (string \<times> json) list \<times> nat list) list"
where
  "layout start toks input =
     (case map_of input ''items'' of
        Some (JObj obj) \<Rightarrow>
          layout start (toks @ [''items'']) obj @
          [(toks, input, [start + count_schemas obj - 1])]
      | Some (JArr arr) \<Rightarrow>
          item_layout start (toks @ [''items'']) 0 arr @
          [(toks, input, item_roots start arr)]
      | _ \<Rightarrow> [(toks, input, [])])"
| "item_layout start toks i [] = []"
| "item_layout start toks i (item # rest) =
     (case item of
        JObj obj \<Rightarrow>
          layout start (toks @ [FormatInt i]) obj @
          item_layout (start + count_schemas obj) toks (Suc i) rest
      | _ \<Rightarrow> item_layout start toks (Suc i) rest)"
  by pat_completeness auto
termination
proof -
  have looked_up: "size v < Suc (size_list (size_prod (\<lambda>_. 0) size) kvs)"
    if "map_of kvs k = Some v" for kvs :: "(string \<times> json) list" and k v
    using that by (induction kvs) (auto split: if_splits)
  show ?thesis
    by (relation "measure (\<lambda>x. case x of
            Inl (start, toks, input) \<Rightarrow> size_list (size_prod (\<lambda>_. 0) size) input
          | Inr (start, toks, i, items) \<Rightarrow> size_list size items)")
       (auto dest: looked_up)
qed

declare layout.simps [simp del]

text \<open>
  The base URI of a document parsed by \<open>p\<close>: the \<^verbatim>\<open>$id\<close> of the document root, parsed on
  its own, and the base URI of \<open>p\<close> when the root has none or \<open>p\<close> is inside a document.
\<close>

definition document_base :: "urllib \<Rightarrow> parser \<Rightarrow> (string \<times> json) list \<Rightarrow> url" where
  "document_base lib p input =
     (if tokens p = [] then
        (case map_of input ''$id'' of
           Some (JStr idStr) \<Rightarrow> (case url_Parse lib idStr of Some uri \<Rightarrow> uri | None \<Rightarrow> baseURI p)
         | _ \<Rightarrow> baseURI p)
      else baseURI p)"

text \<open>
  The target of the \<^verbatim>\<open>$ref\<close> of a node, if it has one; and the target the
  specification gives a schema object in a document whose base URI is \<open>base\<close>: the
  object's own \<^verbatim>\<open>$ref\<close> string resolved against \<open>base\<close>.
\<close>

definition ref_target :: "schema \<Rightarrow> url option" where
  "ref_target s = (if Ref_IsSet (Ref s) then Some (Ref_URI (Ref s)) else None)"

definition own_ref :: "urllib \<Rightarrow> url \<Rightarrow> (string \<times> json) list \<Rightarrow> url option" where
  "own_ref lib base obj =
     (case map_of obj ''$ref'' of
        Some (JStr refStr) \<Rightarrow> url_Resolve lib base refStr
      | _ \<Rightarrow> None)"

text \<open>
  What is read off a node of the registry: its key, the indices of its sub-schemas and
  the target of its \<^verbatim>\<open>$ref\<close>. \<open>expected_view lib base\<close> is what the specification's
  parse tree gives for an entry of \<open>layout\<close> in a document whose base URI is \<open>base\<close>: the
  key is \<open>base\<close> with the pointer of the object as fragment.
\<close>

definition node_view :: "url \<times> schema \<Rightarrow> url \<times> nat list \<times> url option" where
  "node_view node = (fst node, Schemas (Items (snd node)), ref_target (snd node))"

definition expected_view :: "urllib \<Rightarrow> url \<Rightarrow> string list \<times> (string \<times> json) list \<times> nat list \<Rightarrow>
                             url \<times> nat list \<times> url option" where
  "expected_view lib base entry =
     (case entry of
        (path, obj, children) \<Rightarrow>
          (base\<lparr>Fragment := ptr_String lib path\<rparr>, children, own_ref lib base obj))"

text \<open>
  A function applied to what a call returns when it does not fail; and the VM with only
  the first \<open>n\<close> of its recorded errors.
\<close>

definition map_result :: "('a \<Rightarrow> 'b) \<Rightarrow> 'e + 'a \<Rightarrow> 'e + 'b" where
  "map_result f res = (case res of Inl e \<Rightarrow> Inl e | Inr x \<Rightarrow> Inr (f x))"

definition keep_first :: "nat \<Rightarrow> vm \<Rightarrow> vm" where
  "keep_first n m = m\<lparr>errors := take n (errors m)\<rparr>"

text \<open>A parser at the root of a document, on an empty registry.\<close>

definition parser0 :: parser where
  "parser0 = \<lparr>registry = [], baseURI = emptyURL, tokens = []\<rparr>"

text \<open>The document of the test "references to non-existent URIs" (TestValidatorSeal).\<close>

definition doc_refs :: "(string \<times> json) list" where
  "doc_refs =
     [(''$ref'', JStr ''http://example.com/1''),
      (''items'', JArr [JObj [(''$ref'', JStr ''http://example.com/2'')],
                       JObj [(''$ref'', JStr ''http://example.com/3'')],
                       JObj [(''$ref'', JStr ''http://example.com/4#/fragment'')]])]"

definition example_com :: "string \<Rightarrow> url" where
  "example_com path =
     \<lparr>Scheme = ''http'', Host = ''example.com'', Path = path, RawQuery = [], Fragment = []\<rparr>"

text \<open>The document of TestValidatorOverflow.\<close>

definition doc_self_ref :: "(string \<times> json) list" where
  "doc_self_ref = [(''$ref'', JStr ''#'')]"

text \<open>The node \<open>Parse\<close> builds for it when \<^verbatim>\<open>#\<close> resolves to the empty URL.\<close>

definition self_ref_node :: schema where
  "self_ref_node =
     schema0\<lparr>Ref := \<lparr>Ref_IsSet = True, Ref_Schema = 0, Ref_URI = emptyURL,
                      Ref_BaseURI = emptyURL, Ref_Ptr = []\<rparr>\<rparr>"

text \<open>
  A document with both forms of \<^verbatim>\<open>items\<close>:
  \<^verbatim>\<open>{"items": {"items": [{"type": "null"}, {"items": {}}]}}\<close>.
\<close>

definition doc_mixed :: "(string \<times> json) list" where
  "doc_mixed =
     [(''items'', JObj [(''items'', JArr [JObj [(''type'', JStr ''null'')],
                                         JObj [(''items'', JObj [])]])])]"

text \<open>
  A root with \<^verbatim>\<open>$id\<close> and a \<^verbatim>\<open>$ref\<close>, over a nested schema object that carries another
  \<^verbatim>\<open>$id\<close> and a \<^verbatim>\<open>$ref\<close>.
\<close>

definition doc_root_id :: "(string \<times> json) list" where
  "doc_root_id =
     [(''$id'', JStr ''http://example.com/root''),
      (''$ref'', JStr ''#/items''),
      (''items'', JObj [(''$id'', JStr ''http://example.com/nested''), (''$ref'', JStr ''#'')])]"

text \<open>A nested schema object that carries \<^verbatim>\<open>$id\<close> and a \<^verbatim>\<open>$ref\<close>, under a root without \<^verbatim>\<open>$id\<close>.\<close>

definition doc_nested_id :: "(string \<times> json) list" where
  "doc_nested_id =
     [(''items'', JObj [(''$id'', JStr ''http://example.com/nested''), (''$ref'', JStr ''#'')])]"




section \<open>Basic facts\<close>

lemma and_then_simps [simp]:
  "and_then (Inl e) f = Inl e"
  "and_then (Inr x) f = f x"
  by (simp_all add: and_then_def)

lemma and_then_InrD: "and_then r f = Inr y \<Longrightarrow> \<exists>x. r = Inr x \<and> f x = Inr y"
  by (cases r) simp_all

lemma foldl_and_then_Inl: "foldl (\<lambda>r k. and_then r (f k)) (Inl e) ks = Inl e"
  by (induction ks) simp_all

lemma go_Round_iff: "x = go_Round x \<longleftrightarrow> x \<in> \<int>"
proof
  assume "x = go_Round x"
  then show "x \<in> \<int>"
    unfolding go_Round_def by (metis Ints_minus Ints_of_int)
next
  assume "x \<in> \<int>"
  then obtain k :: int where k: "x = of_int k"
    by (auto elim: Ints_cases)
  have up: "\<lfloor>(of_int k :: rat) + 1 / 2\<rfloor> = k"
    by linarith
  have down: "\<lfloor>- (of_int k :: rat) + 1 / 2\<rfloor> = - k"
    by linarith
  show "x = go_Round x"
    unfolding go_Round_def k using up down by simp
qed

lemma go_Trunc_iff: "x = go_Trunc x \<longleftrightarrow> x \<in> \<int>"
proof
  assume "x = go_Trunc x"
  then show "x \<in> \<int>"
    unfolding go_Trunc_def by (metis Ints_of_int)
next
  assume "x \<in> \<int>"
  then obtain k :: int where k: "x = of_int k"
    by (auto elim: Ints_cases)
  show "x = go_Trunc x"
    unfolding go_Trunc_def k by simp
qed

section \<open>The type check for integer\<close>

lemma typeError_errors:
  "typeError m = Inr m' \<Longrightarrow> length (errors m') = Suc (length (errors m))"
  by (auto simp: typeError_def and_then_def pushSchemaToken_def reportError_def
        popSchemaToken_def Let_def split: if_splits sum.splits)

lemma typeError_changes_errors: "typeError m = Inr m' \<Longrightarrow> errors m' \<noteq> errors m"
  using typeError_errors by fastforce

lemma passes_integer:
  "Types (Type s) = [jsonTypeInteger] \<Longrightarrow>
     type_check_passes s i m \<longleftrightarrow> (\<exists>x. i = JNum x \<and> x = go_Round x)"
  by (cases i)
     (auto simp: type_check_passes_def Let_def dest: typeError_changes_errors split: sum.splits)

lemma passes_non_number:
  "\<forall>x. i \<noteq> JNum x \<Longrightarrow>
     type_check_passes s i m \<longleftrightarrow> (\<exists>t. spec_tag i = Some t \<and> contains (Type s) t)"
  by (cases i)
     (auto simp: type_check_passes_def Let_def dest: typeError_changes_errors split: sum.splits)

lemma parse_type_integer:
  "parse_type [(''type'', JStr ''integer'')] schema0 = Inr (schema_of_type jsonTypeInteger)"
  by (simp add: parse_type_def schema_of_type_def)

lemma assertSimpleType_integer:
  "assertSimpleType IntegerSimpleType i \<longleftrightarrow> (\<exists>x. i = JNum x \<and> x = go_Round x)"
  by (cases i) (auto simp: go_Round_iff go_Trunc_iff[symmetric])

text \<open>
  C4. For a schema whose type is \<^verbatim>\<open>"integer"\<close>, the type check of \<^verbatim>\<open>execSchema\<close> (vm.go)
  passes exactly for the numbers that equal their own rounding, and so does
  \<^verbatim>\<open>assertSimpleType\<close> (which compares with the truncation); a number equals its rounding
  exactly when it is integral, whatever its sign. For any type set, an instance that is
  not a number passes exactly when its runtime tag is in the set.
\<close>

theorem type_integer_iff_rounding:
  assumes "Types (Type s) = [jsonTypeInteger]"
  shows "(type_check_passes s i m \<longleftrightarrow> (\<exists>x. i = JNum x \<and> x = go_Round x)) \<and>
         (assertSimpleType IntegerSimpleType i \<longleftrightarrow> (\<exists>x. i = JNum x \<and> x = go_Round x)) \<and>
         (y = go_Round y \<longleftrightarrow> y \<in> \<int>) \<and>
         ((\<forall>x. i \<noteq> JNum x) \<longrightarrow>
            (type_check_passes t i m \<longleftrightarrow> (\<exists>tag. spec_tag i = Some tag \<and> contains (Type t) tag)))"
proof (intro conjI impI)
  show "type_check_passes s i m \<longleftrightarrow> (\<exists>x. i = JNum x \<and> x = go_Round x)"
    using assms by (rule passes_integer)
  show "assertSimpleType IntegerSimpleType i \<longleftrightarrow> (\<exists>x. i = JNum x \<and> x = go_Round x)"
    by (rule assertSimpleType_integer)
  show "y = go_Round y \<longleftrightarrow> y \<in> \<int>"
    by (rule go_Round_iff)
  show "type_check_passes t i m \<longleftrightarrow> (\<exists>tag. spec_tag i = Some tag \<and> contains (Type t) tag)"
    if "\<forall>x. i \<noteq> JNum x"
    using that by (rule passes_non_number)
qed

theorem type_integer_iff_rounding_witness:
  "Types (Type (schema_of_type jsonTypeInteger)) = [jsonTypeInteger] \<and>
   type_check_passes (schema_of_type jsonTypeInteger) (JNum (- 3)) vm_start \<and>
   \<not> type_check_passes (schema_of_type jsonTypeInteger) (JNum (5 / 2)) vm_start \<and>
   \<not> type_check_passes (schema_of_type jsonTypeInteger) (JStr ''x'') vm_start \<and>
   type_check_passes (schema_of_type jsonTypeString) (JStr ''x'') vm_start"
proof -
  let ?int = "schema_of_type jsonTypeInteger" and ?str = "schema_of_type jsonTypeString"
  have t: "Types (Type ?int) = [jsonTypeInteger]"
    by (simp add: schema_of_type_def)
  have num: "(\<exists>x. JNum q = JNum x \<and> x = go_Round x) \<longleftrightarrow> q = go_Round q" for q
    by auto
  have r1: "(- 3 :: rat) = go_Round (- 3)"
    by (simp add: go_Round_iff)
  have r2: "(5 / 2 :: rat) \<noteq> go_Round (5 / 2)"
    by (simp add: go_Round_def)
  have p1: "type_check_passes ?int (JNum (- 3)) vm_start"
    using conjunct1[OF type_integer_iff_rounding[OF t, of "JNum (- 3)" vm_start 0 ?str]] r1
    unfolding num by blast
  have p2: "\<not> type_check_passes ?int (JNum (5 / 2)) vm_start"
    using conjunct1[OF type_integer_iff_rounding[OF t, of "JNum (5 / 2)" vm_start 0 ?str]] r2
    unfolding num by blast
  have nn: "\<forall>x. JStr ''x'' \<noteq> JNum x"
    by simp
  have p3: "\<not> type_check_passes ?int (JStr ''x'') vm_start"
    using type_integer_iff_rounding[OF t, of "JStr ''x''" vm_start 0 ?int] nn
    by (simp add: schema_of_type_def)
  have p4: "type_check_passes ?str (JStr ''x'') vm_start"
    using type_integer_iff_rounding[OF t, of "JStr ''x''" vm_start 0 ?str] nn
    by (simp add: schema_of_type_def)
  show ?thesis
    using t p1 p2 p3 p4 by (intro conjI)
qed

section \<open>The tolerance of multipleOf\<close>

lemma go_Mod_abs: "0 < d \<Longrightarrow> go_Mod \<bar>i\<bar> d = Some (spec_mod \<bar>i\<bar> d)"
  by (simp add: go_Mod_def spec_mod_def Let_def)

lemma multipleOf_fails_iff:
  assumes "0 < d"
  shows "multipleOf_fails e (Document0\<lparr>MultipleOf := Some d\<rparr>) (JNum i) \<longleftrightarrow>
         e < round64 (spec_mod \<bar>i\<bar> d / d) \<and> round64 (spec_mod \<bar>i\<bar> d / d) < round64 (1 - e)"
  using assms by (simp add: multipleOf_fails_def go_Mod_abs Let_def)

lemma IsValid_multipleOf_only:
  "IsValid lib \<lparr>validator_schema = schema_of (Document0\<lparr>MultipleOf := Some d\<rparr>), Epsilon = e\<rparr> data
   = Some (\<not> multipleOf_fails e (Document0\<lparr>MultipleOf := Some d\<rparr>) data)"
  by (simp add: IsValid_def Let_def schema_of_def Document0_def minimum_fails_def
        exclusiveMinimum_fails_def maximum_fails_def exclusiveMaximum_fails_def
        maxLength_fails_def minLength_fails_def pattern_fails_def type_fails_def)

lemma round64_one_thousandth: "round64 (1 / 1000) = 1152921504606847 / 1152921504606846976"
  by code_simp

lemma round64_999_thousandths: "round64 (999 / 1000) = 8998192055486251 / 9007199254740992"
  by code_simp

lemma round64_one_minus_epsilon:
  "round64 (1 - 1152921504606847 / 1152921504606846976) = 8998192055486251 / 9007199254740992"
  by code_simp

lemma round64_third: "round64 (1 / 3) = 6004799503160661 / 18014398509481984"
  by code_simp

lemma round64_1023: "round64 (1 - 1 / 1024) = 1 - 1 / 1024"
  by code_simp

text \<open>
  C5, as amended. For a number \<open>i\<close>, a divisor \<open>d > 0\<close> and a tolerance \<open>e\<close>, \<^verbatim>\<open>IsValid\<close> on a
  schema with only \<^verbatim>\<open>multipleOf = d\<close> returns true exactly when \<open>mod \<le> e\<close> or
  \<open>mod \<ge> 1 - e\<close>, where \<open>mod\<close> is the \<^verbatim>\<open>float64\<close> quotient of \<open>|i| mod d\<close> by \<open>d\<close> and \<open>1 - e\<close>
  is the \<^verbatim>\<open>float64\<close> difference. Whenever that difference is computed without rounding,
  this is the symmetric tolerance \<open>min(mod, 1 - mod) \<le> e\<close>.
\<close>

theorem multipleOf_rounded_tolerance:
  assumes "0 < d"
  shows "IsValid lib \<lparr>validator_schema = schema_of (Document0\<lparr>MultipleOf := Some d\<rparr>), Epsilon = e\<rparr>
           (JNum i)
         = Some (round64 (spec_mod \<bar>i\<bar> d / d) \<le> e \<or> round64 (1 - e) \<le> round64 (spec_mod \<bar>i\<bar> d / d))
         \<and> (round64 (1 - e) = 1 - e \<longrightarrow>
            IsValid lib \<lparr>validator_schema = schema_of (Document0\<lparr>MultipleOf := Some d\<rparr>), Epsilon = e\<rparr>
              (JNum i)
            = Some (min (round64 (spec_mod \<bar>i\<bar> d / d)) (1 - round64 (spec_mod \<bar>i\<bar> d / d)) \<le> e))"
proof -
  have sym: "(x \<le> e \<or> 1 - e \<le> x) \<longleftrightarrow> min x (1 - x) \<le> e" for x :: rat
    by (auto simp: min_def)
  have code: "IsValid lib \<lparr>validator_schema = schema_of (Document0\<lparr>MultipleOf := Some d\<rparr>), Epsilon = e\<rparr>
           (JNum i)
         = Some (round64 (spec_mod \<bar>i\<bar> d / d) \<le> e \<or> round64 (1 - e) \<le> round64 (spec_mod \<bar>i\<bar> d / d))"
    unfolding IsValid_multipleOf_only multipleOf_fails_iff[OF assms] by auto
  show ?thesis
  proof (rule conjI)
    show "IsValid lib \<lparr>validator_schema = schema_of (Document0\<lparr>MultipleOf := Some d\<rparr>), Epsilon = e\<rparr>
           (JNum i)
         = Some (round64 (spec_mod \<bar>i\<bar> d / d) \<le> e \<or> round64 (1 - e) \<le> round64 (spec_mod \<bar>i\<bar> d / d))"
      by (rule code)
  next
    show "round64 (1 - e) = 1 - e \<longrightarrow>
            IsValid lib \<lparr>validator_schema = schema_of (Document0\<lparr>MultipleOf := Some d\<rparr>), Epsilon = e\<rparr>
              (JNum i)
            = Some (min (round64 (spec_mod \<bar>i\<bar> d / d)) (1 - round64 (spec_mod \<bar>i\<bar> d / d)) \<le> e)"
    proof
      assume exact: "round64 (1 - e) = 1 - e"
      show "IsValid lib \<lparr>validator_schema = schema_of (Document0\<lparr>MultipleOf := Some d\<rparr>), Epsilon = e\<rparr>
              (JNum i)
            = Some (min (round64 (spec_mod \<bar>i\<bar> d / d)) (1 - round64 (spec_mod \<bar>i\<bar> d / d)) \<le> e)"
        unfolding code exact sym ..
    qed
  qed
qed

text \<open>
  The divisor 3, the instance 7 and the tolerance \<open>1/1024\<close>, whose difference from 1 is
  representable: \<open>mod\<close> is the \<^verbatim>\<open>float64\<close> nearest to one third, and the instance is refused.
\<close>

theorem multipleOf_rounded_tolerance_witness:
  "(0::rat) < 3 \<and> round64 (1 - 1 / 1024) = 1 - 1 / 1024 \<and>
   IsValid strlib_example
     \<lparr>validator_schema = schema_of (Document0\<lparr>MultipleOf := Some 3\<rparr>), Epsilon = 1 / 1024\<rparr>
     (JNum 7) = Some False"
proof -
  have m: "round64 (spec_mod \<bar>7\<bar> 3 / 3) = 6004799503160661 / 18014398509481984"
    by code_simp
  show ?thesis
    using multipleOf_rounded_tolerance[of 3 strlib_example "1 / 1024" 7] round64_1023
    unfolding m by simp
qed

text \<open>
  The claim as stated fails on the instance 0.999 with the divisor 1 and the default
  tolerance of \<^verbatim>\<open>NewValidator\<close>. The \<^verbatim>\<open>float64\<close> 0.999 is \<^verbatim>\<open>8998192055486251 / 2^53\<close> and
  \<^verbatim>\<open>1e-3\<close> is \<^verbatim>\<open>1152921504606847 / 2^60\<close>; \<open>mod\<close> is the instance itself, and
  \<^verbatim>\<open>1-v.Epsilon\<close> rounds to that same number, so \<^verbatim>\<open>mod < 1-v.Epsilon\<close> is false and
  \<^verbatim>\<open>IsValid\<close> returns true, while both \<open>mod\<close> and \<open>1 - mod\<close> exceed the tolerance.
\<close>

theorem multipleOf_tolerance_counterexample:
  "IsValid strlib_example (NewValidator (schema_of (Document0\<lparr>MultipleOf := Some 1\<rparr>)))
     (JNum (round64 (999 / 1000))) = Some True \<and>
   Epsilon (NewValidator (schema_of (Document0\<lparr>MultipleOf := Some 1\<rparr>)))
     < min (spec_mod \<bar>round64 (999 / 1000)\<bar> 1 / 1) (1 - spec_mod \<bar>round64 (999 / 1000)\<bar> 1 / 1)"
proof -
  have m: "spec_mod \<bar>8998192055486251 / 9007199254740992\<bar> 1 / 1 = 8998192055486251 / 9007199254740992"
    by code_simp
  have r: "round64 (8998192055486251 / 9007199254740992) = 8998192055486251 / 9007199254740992"
    by code_simp
  have rm: "round64 (spec_mod \<bar>8998192055486251 / 9007199254740992\<bar> 1 / 1)
            = 8998192055486251 / 9007199254740992"
    unfolding m r ..
  have fails: "\<not> multipleOf_fails (1152921504606847 / 1152921504606846976)
                  (Document0\<lparr>MultipleOf := Some 1\<rparr>) (JNum (8998192055486251 / 9007199254740992))"
    using multipleOf_fails_iff[of 1 "1152921504606847 / 1152921504606846976"
            "8998192055486251 / 9007199254740992"]
    unfolding rm round64_one_minus_epsilon by simp
  show ?thesis
    unfolding NewValidator_def DefaultEpsilon_def round64_one_thousandth round64_999_thousandths
    using fails m by (simp add: IsValid_multipleOf_only)
qed

section \<open>Patterns are compiled when an instance is validated\<close>

lemma IsValid_pattern_panics:
  "regexp_Compile lib pat = None \<Longrightarrow>
   IsValid lib (NewValidator (schema_of (Document0\<lparr>Pattern := Some pat\<rparr>))) (JStr str) = None"
  by (simp add: IsValid_def NewValidator_def schema_of_def Document0_def minimum_fails_def
        exclusiveMinimum_fails_def maximum_fails_def exclusiveMaximum_fails_def
        maxLength_fails_def minLength_fails_def multipleOf_fails_def pattern_fails_def)

text \<open>
  C6. The claim is that an invalid pattern is rejected when the schema is compiled and
  never panics when an instance is validated. \<^verbatim>\<open>NewValidator\<close> of parser.go checks
  nothing, and \<^verbatim>\<open>IsValid\<close> compiles the pattern for every string instance: with the
  pattern \<^verbatim>\<open>[[[\<close> of the test "non-regexp pattern value" and the instance \<^verbatim>\<open>"x"\<close> the
  validator is built and \<^verbatim>\<open>IsValid\<close> panics.
\<close>

theorem IsValid_panics_on_bad_pattern:
  "IsValid strlib_example (NewValidator (schema_of (Document0\<lparr>Pattern := Some ''[[[''\<rparr>)))
     (JStr ''x'') = None"
  by (simp add: IsValid_pattern_panics strlib_example_def)

section \<open>The schema token after a check\<close>

lemma popSchemaToken_returns_argument: "popSchemaToken m = Inr m' \<Longrightarrow> m' = m"
  by (auto simp: popSchemaToken_def Let_def split: if_splits)

lemma typeError_leaves_token:
  "typeError m = Inr m' \<Longrightarrow>
     stack_tokens (last (schemas (vm_stack m'))) =
     stack_tokens (last (schemas (vm_stack m))) @ [''type'']"
  by (auto simp: typeError_def pushSchemaToken_def reportError_def popSchemaToken_def Let_def
        dest!: and_then_InrD split: if_splits)

text \<open>
  C7. The claim is that the token pushed for a check is popped after it, so that the
  schema path is afterwards what it was before. In vm.go \<^verbatim>\<open>popSchemaToken\<close> shortens a
  copy of the stack entry: after the failing type check of \<^verbatim>\<open>true\<close> against
  \<^verbatim>\<open>{"type": "null"}\<close> the path, empty before, is \<^verbatim>\<open>["type"]\<close>.
\<close>

theorem execSchema_leaves_type_token:
  "map stack_tokens (schemas (vm_stack vm_start)) = [[]] \<and>
   map_sum id (\<lambda>m. map stack_tokens (schemas (vm_stack m)))
     (execSchema (schema_of_type jsonTypeNull) (JBool True) vm_start) = Inr [[''type'']]"
  by (simp add: schema_of_type_def vm_start_def typeError_def pushSchemaToken_def
        reportError_def popSchemaToken_def)

text \<open>
  The second listing takes the address of the entry, and there the schema and instance
  stacks are after every call what they were before it.
\<close>

lemma stack_push_pop2:
  "pushSchemaToken tok m = Inr m1 \<Longrightarrow> vm_stack m2 = vm_stack m1 \<Longrightarrow>
   popSchemaToken2 m2 = Inr m3 \<Longrightarrow> vm_stack m3 = vm_stack m"
  by (auto simp: pushSchemaToken_def popSchemaToken2_def Let_def split: if_splits)

lemma reportError_stack: "reportError m = Inr m' \<Longrightarrow> vm_stack m' = vm_stack m"
  by (auto simp: reportError_def Let_def split: if_splits)

lemma typeError2_stack: "typeError2 m = Inr m' \<Longrightarrow> vm_stack m' = vm_stack m"
  unfolding typeError2_def
  by (auto dest!: and_then_InrD reportError_stack intro: stack_push_pop2)

lemma instance_push_pop:
  "vm_stack m1 = vm_stack (pushInstanceToken tok m) \<Longrightarrow> popInstanceToken m1 = Inr m2 \<Longrightarrow>
   vm_stack m2 = vm_stack m"
  by (auto simp: pushInstanceToken_def popInstanceToken_def split: if_splits)

lemma execSchema2_JArr:
  "execSchema2 schema (JArr val) m =
     and_then (if type_lacks schema jsonTypeArray then typeError2 m else Inr m)
       (\<lambda>m1. case Items2 schema of
                None \<Rightarrow> Inr m1
              | Some items \<Rightarrow>
                  and_then (and_then (pushSchemaToken ''items'' m1)
                     (\<lambda>m2. if IsSingle items then items_single (Single items) 0 val m2
                            else items_tuple (ItemList items) 0 val m2))
                   popSchemaToken2)"
  by (simp add: and_then_def split: sum.splits option.splits)

lemma execSchema2_stack:
  "execSchema2 schema inst m = Inr m' \<Longrightarrow> vm_stack m' = vm_stack m"
  "items_single single i val m = Inr m' \<Longrightarrow> vm_stack m' = vm_stack m"
  "items_tuple ss i val m = Inr m' \<Longrightarrow> vm_stack m' = vm_stack m"
proof (induction schema inst m and single i val m and ss i val m arbitrary: m' and m' and m'
       rule: execSchema2_items_single_items_tuple.induct)
  case (5 schema val m)
  obtain m1 where m1: "(if type_lacks schema jsonTypeArray then typeError2 m else Inr m) = Inr m1"
    using "5.prems" by (auto simp: and_then_def split: sum.splits)
  have s1: "vm_stack m1 = vm_stack m"
    using m1 by (auto split: if_splits dest: typeError2_stack)
  show ?case
  proof (cases "Items2 schema")
    case None
    then show ?thesis
      using "5.prems" m1 s1 by (auto split: sum.splits)
  next
    case (Some items)
    obtain m2 m3 where m2: "pushSchemaToken ''items'' m1 = Inr m2"
      and m3: "(if IsSingle items then items_single (Single items) 0 val m2
                else items_tuple (ItemList items) 0 val m2) = Inr m3"
      and m4: "popSchemaToken2 m3 = Inr m'"
      using "5.prems" m1 Some by (auto split: sum.splits)
    have "vm_stack m3 = vm_stack m2"
      using "5.IH"(1)[OF m1 Some m2] "5.IH"(2)[OF m1 Some m2] m3 by (auto split: if_splits)
    then show ?thesis
      using stack_push_pop2[OF m2 _ m4] s1 by simp
  qed
next
  case (9 single i elem rest m)
  obtain m1 m2 where m1: "execSchema2 single elem (pushInstanceToken (FormatInt i) m) = Inr m1"
    and m2: "popInstanceToken m1 = Inr m2"
    and m3: "items_single single (Suc i) rest m2 = Inr m'"
    using "9.prems" by (auto split: sum.splits)
  have "vm_stack m2 = vm_stack m"
    using "9.IH"(1)[OF m1] m2 by (rule instance_push_pop)
  then show ?case
    using "9.IH"(2)[OF m1 m2 m3] by simp
next
  case (12 s ss i elem rest m)
  obtain m1 m2 m3 m4
    where m1: "pushSchemaToken (FormatInt i) (pushInstanceToken (FormatInt i) m) = Inr m1"
    and m2: "execSchema2 s elem m1 = Inr m2"
    and m3: "popInstanceToken m2 = Inr m3"
    and m4: "popSchemaToken2 m3 = Inr m4"
    and m5: "items_tuple ss (Suc i) rest m4 = Inr m'"
    using "12.prems" by (auto split: sum.splits)
  have a: "vm_stack m2 = vm_stack m1"
    using "12.IH"(1)[OF m1 m2] .
  have "vm_stack m4 = vm_stack m"
    using m1 m3 m4 a
    by (auto simp: pushSchemaToken_def popSchemaToken2_def pushInstanceToken_def
          popInstanceToken_def Let_def split: if_splits)
  then show ?case
    using "12.IH"(2)[OF m1 m2 m3 m4 m5] by simp
qed (auto split: sum.splits option.splits if_splits dest: typeError2_stack)

section \<open>Tuple items\<close>

lemma and_then_assoc: "and_then (and_then r f) g = and_then r (\<lambda>x. and_then (f x) g)"
  by (cases r) simp_all

lemma items_tuple_step:
  "items_tuple (s # ss) i (elem # rest) m =
     and_then (tuple_position s i elem m) (items_tuple ss (Suc i) rest)"
  by (simp add: tuple_position_def split: sum.splits)

lemma items_tuple_positions:
  "items_tuple ss i val m =
     foldl (\<lambda>r k. and_then r (tuple_position (ss ! k) (i + k) (val ! k))) (Inr m)
       [0..<min (length ss) (length val)]"
proof (induction ss arbitrary: i val m)
  case Nil
  then show ?case by simp
next
  case (Cons s ss)
  show ?case
  proof (cases val)
    case Nil
    then show ?thesis by simp
  next
    case (Cons elem rest)
    let ?n = "min (length ss) (length rest)"
    have upt: "[0..<Suc ?n] = 0 # map Suc [0..<?n]"
      by (simp add: upt_conv_Cons map_Suc_upt del: upt_Suc)
    show ?thesis
    proof (cases "tuple_position s i elem m")
      case (Inl e)
      then show ?thesis
        unfolding Cons items_tuple_step using upt
        by (simp add: foldl_and_then_Inl del: upt_Suc items_tuple.simps)
    next
      case (Inr m1)
      then show ?thesis
        unfolding Cons items_tuple_step using upt Cons.IH[of "Suc i" rest m1]
        by (simp add: foldl_map del: upt_Suc items_tuple.simps)
    qed
  qed
qed

lemma items_tuple_take:
  "items_tuple ss i (take (length ss) val) m = items_tuple ss i val m"
proof (induction ss arbitrary: i val m)
  case Nil
  then show ?case by simp
next
  case (Cons s ss)
  then show ?case
    by (cases val) (simp_all split: sum.splits)
qed

text \<open>
  C10. With a tuple for \<^verbatim>\<open>items\<close>, \<^verbatim>\<open>execSchema\<close> of the second listing does on an array
  what it does on the array cut to the tuple's length: the elements beyond the tuple are
  not validated and add no error. The whole call is the type check, then the positions
  \<open>0 .. min(tuple length, array length) - 1\<close> in order, each element against the
  sub-schema at its own index, between the push and the pop of \<^verbatim>\<open>items\<close>.
\<close>

theorem tuple_items_positions_only:
  assumes "Items2 schema = Some items" and "\<not> IsSingle items"
  shows "execSchema2 schema (JArr val) m =
           execSchema2 schema (JArr (take (length (ItemList items)) val)) m \<and>
         execSchema2 schema (JArr val) m =
           and_then (if type_lacks schema jsonTypeArray then typeError2 m else Inr m)
             (\<lambda>m1. and_then (and_then (pushSchemaToken ''items'' m1)
                (\<lambda>m2. foldl (\<lambda>r k. and_then r
                          (tuple_position (ItemList items ! k) k (val ! k))) (Inr m2)
                        [0..<min (length (ItemList items)) (length val)]))
                popSchemaToken2)"
proof
  show "execSchema2 schema (JArr val) m =
          execSchema2 schema (JArr (take (length (ItemList items)) val)) m"
    unfolding execSchema2_JArr using assms by (simp add: items_tuple_take)
next
  have loop: "items_tuple (ItemList items) 0 val m2 =
      foldl (\<lambda>r k. and_then r (tuple_position (ItemList items ! k) k (val ! k))) (Inr m2)
        [0..<min (length (ItemList items)) (length val)]" for m2
    using items_tuple_positions[of "ItemList items" 0 val m2] by simp
  show "execSchema2 schema (JArr val) m =
          and_then (if type_lacks schema jsonTypeArray then typeError2 m else Inr m)
            (\<lambda>m1. and_then (and_then (pushSchemaToken ''items'' m1)
               (\<lambda>m2. foldl (\<lambda>r k. and_then r
                         (tuple_position (ItemList items ! k) k (val ! k))) (Inr m2)
                       [0..<min (length (ItemList items)) (length val)]))
               popSchemaToken2)"
    unfolding execSchema2_JArr using assms by (simp add: loop)
qed

theorem tuple_items_positions_only_witness:
  "Items2 Schema2_null_pair =
     Some (SchemaItems2 False (Schema2 None None)
             [Schema2_of_type jsonTypeNull, Schema2_of_type jsonTypeNull]) \<and>
   execSchema2 Schema2_null_pair (JArr [JNull, JBool True, JBool True]) vm_start =
     execSchema2 Schema2_null_pair (JArr [JNull, JBool True]) vm_start \<and>
   map_sum id errors (execSchema2 Schema2_null_pair (JArr [JNull, JBool True, JBool True]) vm_start) =
     Inr [\<lparr>InstancePath = [''1''], SchemaPath = [''items'', ''1'', ''type''],
           ErrorURI = emptyURL\<rparr>]"
proof -
  let ?items = "SchemaItems2 False (Schema2 None None)
                  [Schema2_of_type jsonTypeNull, Schema2_of_type jsonTypeNull]"
  have i: "Items2 Schema2_null_pair = Some ?items"
    by (simp add: Schema2_null_pair_def)
  have s: "\<not> IsSingle ?items"
    by simp
  have cut: "execSchema2 Schema2_null_pair (JArr [JNull, JBool True, JBool True]) vm_start =
     execSchema2 Schema2_null_pair (JArr [JNull, JBool True]) vm_start"
    using conjunct1[OF tuple_items_positions_only[OF i s, of "[JNull, JBool True, JBool True]" vm_start]]
    by simp
  have run: "map_sum id errors (execSchema2 Schema2_null_pair (JArr [JNull, JBool True]) vm_start) =
     Inr [\<lparr>InstancePath = [''1''], SchemaPath = [''items'', ''1'', ''type''],
           ErrorURI = emptyURL\<rparr>]"
    by code_simp
  show ?thesis
    using i cut run by simp
qed

section \<open>What Parse inserts\<close>

lemma grows_refl: "grows r r"
  by (simp add: grows_def)

lemma grows_new:
  assumes "grows r r'"
  obtains new where "r' = r @ new" and "\<forall>node \<in> set new. ref_ok (snd node)"
  using assms unfolding grows_def by blast

lemma grows_child:
  "grows r r' \<Longrightarrow> length r \<le> k \<Longrightarrow> k < length r' \<Longrightarrow>
   c \<in> set (Schemas (Items (snd (r' ! k)))) \<Longrightarrow> length r \<le> c \<and> c < k"
  unfolding grows_def by blast

lemma growsI:
  assumes "r' = r @ new" and "\<forall>node \<in> set new. ref_ok (snd node)"
    and "\<And>k c. length r \<le> k \<Longrightarrow> k < length r' \<Longrightarrow>
           c \<in> set (Schemas (Items (snd (r' ! k)))) \<Longrightarrow> length r \<le> c \<and> c < k"
  shows "grows r r'"
  unfolding grows_def using assms by blast

lemma grows_length: "grows r r' \<Longrightarrow> length r \<le> length r'"
  by (erule grows_new) simp

lemma grows_trans:
  assumes "grows r r'" and "grows r' r''"
  shows "grows r r''"
proof -
  obtain n1 where n1: "r' = r @ n1" "\<forall>node \<in> set n1. ref_ok (snd node)"
    using assms(1) by (rule grows_new)
  obtain n2 where n2: "r'' = r' @ n2" "\<forall>node \<in> set n2. ref_ok (snd node)"
    using assms(2) by (rule grows_new)
  show ?thesis
  proof (rule growsI[where new = "n1 @ n2"])
    show "r'' = r @ n1 @ n2"
      using n1 n2 by simp
    show "\<forall>node \<in> set (n1 @ n2). ref_ok (snd node)"
      using n1 n2 by auto
    fix k c
    assume k: "length r \<le> k" "k < length r''"
      and c: "c \<in> set (Schemas (Items (snd (r'' ! k))))"
    show "length r \<le> c \<and> c < k"
    proof (cases "k < length r'")
      case True
      then have "r'' ! k = r' ! k"
        using n2 by (simp add: nth_append)
      then show ?thesis
        using grows_child[OF assms(1) k(1) True] c by simp
    next
      case False
      then have "length r' \<le> c \<and> c < k"
        using grows_child[OF assms(2) _ k(2) c] by simp
      then show ?thesis
        using grows_length[OF assms(1)] by simp
    qed
  qed
qed

lemma grows_snoc:
  assumes "grows r r'" and "ref_ok s"
    and "\<forall>c \<in> set (Schemas (Items s)). length r \<le> c \<and> c < length r'"
  shows "grows r (r' @ [(u, s)])"
proof -
  obtain n1 where n1: "r' = r @ n1" "\<forall>node \<in> set n1. ref_ok (snd node)"
    using assms(1) by (rule grows_new)
  show ?thesis
  proof (rule growsI[where new = "n1 @ [(u, s)]"])
    show "r' @ [(u, s)] = r @ n1 @ [(u, s)]"
      using n1 by simp
    show "\<forall>node \<in> set (n1 @ [(u, s)]). ref_ok (snd node)"
      using n1 assms(2) by auto
    fix k c
    assume k: "length r \<le> k" "k < length (r' @ [(u, s)])"
      and c: "c \<in> set (Schemas (Items (snd ((r' @ [(u, s)]) ! k))))"
    show "length r \<le> c \<and> c < k"
    proof (cases "k < length r'")
      case True
      then have "(r' @ [(u, s)]) ! k = r' ! k"
        by (simp add: nth_append)
      then show ?thesis
        using grows_child[OF assms(1) k(1) True] c by simp
    next
      case False
      then have "k = length r'"
        using k by simp
      then show ?thesis
        using assms(3) c by simp
    qed
  qed
qed

lemma parse_ref_ok:
  "parse_ref lib input p s = Inr s' \<Longrightarrow> ref_ok s \<Longrightarrow> ref_ok s' \<and> Items s' = Items s"
  by (auto simp: parse_ref_def ref_ok_def split: option.splits json.splits)

lemma parse_type_keeps: "parse_type input s = Inr s' \<Longrightarrow> Ref s' = Ref s \<and> Items s' = Items s"
  by (auto simp: parse_type_def split: option.splits json.splits sum.splits)

lemma parse_id_keeps:
  "parse_id lib input p s = Inr (p1, s1) \<Longrightarrow>
     registry p1 = registry p \<and> tokens p1 = tokens p \<and> Ref s1 = Ref s \<and> Items s1 = Items s \<and>
     (tokens p \<noteq> [] \<longrightarrow> p1 = p \<and> s1 = s)"
  by (auto simp: parse_id_def split: option.splits json.splits if_splits)

lemma parse_head_keeps:
  assumes "parse_head lib input p = Inr (p1, s)"
  shows "registry p1 = registry p" and "tokens p1 = tokens p" and "ref_ok s"
    and "Schemas (Items s) = []" and "tokens p \<noteq> [] \<Longrightarrow> p1 = p"
proof -
  obtain pa s1 s2 where a: "parse_id lib input p schema0 = Inr (pa, s1)"
    and b: "parse_ref lib input pa s1 = Inr s2" and c: "parse_type input s2 = Inr s"
    and d: "p1 = pa"
    using assms by (auto simp: parse_head_def split: sum.splits prod.splits)
  have s0: "ref_ok schema0" "Schemas (Items schema0) = []"
    by (simp_all add: ref_ok_def schema0_def emptyURL_def)
  have s1: "ref_ok s1" "Items s1 = Items schema0"
    using parse_id_keeps[OF a] s0 by (simp_all add: ref_ok_def)
  have s2: "ref_ok s2" "Items s2 = Items schema0"
    using parse_ref_ok[OF b s1(1)] s1(2) by simp_all
  show "registry p1 = registry p" "tokens p1 = tokens p" "tokens p \<noteq> [] \<Longrightarrow> p1 = p"
    using parse_id_keeps[OF a] d by simp_all
  show "ref_ok s"
    using parse_type_keeps[OF c] s2 by (simp add: ref_ok_def)
  show "Schemas (Items s) = []"
    using parse_type_keeps[OF c] s2 s0 by simp
qed

lemma insert_schema_eq:
  "insert_schema lib p s = (res, p') \<longleftrightarrow>
     res = Inr (length (registry p)) \<and> p' = p\<lparr>registry := registry p @ [(URI lib p, s)]\<rparr>"
  by (auto simp: insert_schema_def Insert_def)

lemma Parse_Inr_cases:
  assumes "Parse lib input p = (Inr index, p')"
  obtains (leaf) p1 s where "parse_head lib input p = Inr (p1, s)"
      and "map_of input ''items'' = None" and "insert_schema lib p1 s = (Inr index, p')"
  | (single) p1 s items sub p2 where "parse_head lib input p = Inr (p1, s)"
      and "map_of input ''items'' = Some (JObj items)"
      and "Parse lib items (Push ''items'' p1) = (Inr sub, p2)"
      and "insert_schema lib (Pop p2)
             (s\<lparr>Items := \<lparr>Items_IsSet = True, Items_IsSingle = True, Schemas = [sub]\<rparr>\<rparr>) =
           (Inr index, p')"
  | (tuple) p1 s items subs p2 where "parse_head lib input p = Inr (p1, s)"
      and "map_of input ''items'' = Some (JArr items)"
      and "parse_items lib items 0 (Push ''items'' p1) = (Inr subs, p2)"
      and "insert_schema lib (Pop p2)
             (s\<lparr>Items := \<lparr>Items_IsSet = True, Items_IsSingle = False, Schemas = subs\<rparr>\<rparr>) =
           (Inr index, p')"
  using assms
  by (subst (asm) Parse.simps) (auto split: sum.splits option.splits json.splits prod.splits)

lemma parse_items_Inr_cases:
  assumes "parse_items lib (item # rest) i p = (Inr subs, p')"
  obtains obj sub p2 subs' where "item = JObj obj"
    and "Parse lib obj (Push (FormatInt i) p) = (Inr sub, p2)"
    and "parse_items lib rest (Suc i) (Pop p2) = (Inr subs', p')" and "subs = sub # subs'"
  using assms by (auto split: sum.splits json.splits prod.splits)

lemma Parse_grows:
  "Parse lib input p = (Inr index, p') \<Longrightarrow>
     grows (registry p) (registry p') \<and> Suc index = length (registry p') \<and>
     length (registry p) \<le> index"
  "parse_items lib items i p = (Inr subs, p') \<Longrightarrow>
     grows (registry p) (registry p') \<and>
     (\<forall>c \<in> set subs. length (registry p) \<le> c \<and> c < length (registry p'))"
proof (induction lib input p and lib items i p arbitrary: index p' and subs p'
       rule: Parse_parse_items.induct)
  case (1 lib input p)
  from "1.prems" show ?case
  proof (cases rule: Parse_Inr_cases)
    case (leaf p1 s)
    note h = parse_head_keeps[OF leaf(1)]
    have "grows (registry p) (registry p @ [(URI lib p1, s)])"
      using grows_snoc[OF grows_refl h(3)] h(4) by simp
    then show ?thesis
      using leaf(3) h(1) by (auto simp: insert_schema_eq)
  next
    case (single p1 s items sub p2)
    note h = parse_head_keeps[OF single(1)]
    have ih: "grows (registry p1) (registry p2) \<and> Suc sub = length (registry p2) \<and>
              length (registry p1) \<le> sub"
      using "1.IH"(2)[OF single(1) refl single(2) refl single(3)] by (simp add: Push_def)
    let ?s = "s\<lparr>Items := \<lparr>Items_IsSet = True, Items_IsSingle = True, Schemas = [sub]\<rparr>\<rparr>"
    have "ref_ok ?s"
      using h(3) by (simp add: ref_ok_def)
    moreover have "\<forall>c \<in> set (Schemas (Items ?s)).
        length (registry p1) \<le> c \<and> c < length (registry p2)"
      using ih by auto
    ultimately have "grows (registry p1) (registry p2 @ [(URI lib (Pop p2), ?s)])"
      using ih by (intro grows_snoc) auto
    then show ?thesis
      using single(4) h(1) ih grows_length[of "registry p1" "registry p2"]
      by (auto simp: insert_schema_eq Pop_def)
  next
    case (tuple p1 s items subs p2)
    note h = parse_head_keeps[OF tuple(1)]
    have ih: "grows (registry p1) (registry p2) \<and>
              (\<forall>c \<in> set subs. length (registry p1) \<le> c \<and> c < length (registry p2))"
      using "1.IH"(1)[OF tuple(1) refl tuple(2) refl tuple(3)] by (simp add: Push_def)
    let ?s = "s\<lparr>Items := \<lparr>Items_IsSet = True, Items_IsSingle = False, Schemas = subs\<rparr>\<rparr>"
    have "ref_ok ?s"
      using h(3) by (simp add: ref_ok_def)
    then have "grows (registry p1) (registry p2 @ [(URI lib (Pop p2), ?s)])"
      using ih by (intro grows_snoc) auto
    then show ?thesis
      using tuple(4) h(1) ih grows_length[of "registry p1" "registry p2"]
      by (auto simp: insert_schema_eq Pop_def)
  qed
next
  case (2 lib i p)
  then show ?case
    by (simp add: grows_refl)
next
  case (3 lib item rest i p)
  from "3.prems" obtain obj sub p2 subs' where item: "item = JObj obj"
    and a: "Parse lib obj (Push (FormatInt i) p) = (Inr sub, p2)"
    and b: "parse_items lib rest (Suc i) (Pop p2) = (Inr subs', p')"
    and subs: "subs = sub # subs'"
    by (rule parse_items_Inr_cases)
  have ih1: "grows (registry p) (registry p2) \<and> Suc sub = length (registry p2) \<and>
             length (registry p) \<le> sub"
    using "3.IH"(1)[OF item a] by (simp add: Push_def)
  have ih2: "grows (registry p2) (registry p') \<and>
             (\<forall>c \<in> set subs'. length (registry p2) \<le> c \<and> c < length (registry p'))"
    using "3.IH"(2)[OF item a[symmetric] refl b] by (simp add: Pop_def)
  have "grows (registry p) (registry p')"
    using ih1 ih2 grows_trans by blast
  moreover have "\<forall>c \<in> set subs. length (registry p) \<le> c \<and> c < length (registry p')"
    using ih1 ih2 subs grows_length[of "registry p" "registry p2"]
      grows_length[of "registry p2" "registry p'"]
    by auto
  ultimately show ?case
    by simp
qed

section \<open>The registry against the parse tree of the document\<close>

lemma length_layout:
  "length (layout start toks input) = count_schemas input"
  "length (item_layout start toks i items) = count_items items"
proof (induction start toks input and start toks i items rule: layout_item_layout.induct)
  case (1 start toks input)
  show ?case
    unfolding layout.simps[of start toks input] count_schemas.simps[of input]
    using 1 by (auto split: option.splits json.splits)
next
  case (2 start toks i)
  show ?case
    by (simp add: layout.simps)
next
  case (3 start toks i item rest)
  show ?case
    using 3 by (auto simp: layout.simps split: json.splits)
qed

lemma count_schemas_pos: "0 < count_schemas input"
  by (subst count_schemas.simps) simp

lemma ref_target_Ref: "Ref s' = Ref s \<Longrightarrow> ref_target s' = ref_target s"
  by (simp add: ref_target_def)

lemma ref_target_Items [simp]: "ref_target (s\<lparr>Items := x\<rparr>) = ref_target s"
  by (simp add: ref_target_def)

lemma parse_ref_view:
  assumes "parse_ref lib input p s = Inr s'" and "\<not> Ref_IsSet (Ref s)"
  shows "ref_target s' = own_ref lib (baseURI p) input"
  using assms by (auto simp: parse_ref_def ref_target_def own_ref_def split: option.splits json.splits)

lemma parse_id_base:
  "parse_id lib input p s = Inr (p1, s1) \<Longrightarrow> baseURI p1 = document_base lib p input"
  by (auto simp: parse_id_def document_base_def split: option.splits json.splits if_splits)

lemma parse_head_view:
  assumes "parse_head lib input p = Inr (p1, s)"
  shows "baseURI p1 = document_base lib p input"
    and "ref_target s = own_ref lib (document_base lib p input) input"
proof -
  obtain s1 s2 where a: "parse_id lib input p schema0 = Inr (p1, s1)"
    and b: "parse_ref lib input p1 s1 = Inr s2" and c: "parse_type input s2 = Inr s"
    using assms by (auto simp: parse_head_def split: sum.splits prod.splits)
  show base: "baseURI p1 = document_base lib p input"
    using a by (rule parse_id_base)
  have "\<not> Ref_IsSet (Ref s1)"
    using parse_id_keeps[OF a] by (simp add: schema0_def)
  from parse_ref_view[OF b this] show "ref_target s = own_ref lib (document_base lib p input) input"
    using ref_target_Ref[of s s2] parse_type_keeps[OF c] base by simp
qed

lemma document_base_nested: "tokens p \<noteq> [] \<Longrightarrow> document_base lib p input = baseURI p"
  by (simp add: document_base_def)

lemma Parse_layout:
  "Parse lib input p = (Inr index, p') \<Longrightarrow>
     tokens p' = tokens p \<and> baseURI p' = document_base lib p input \<and>
     (\<exists>new. registry p' = registry p @ new \<and>
            map node_view new =
            map (expected_view lib (document_base lib p input))
              (layout (length (registry p)) (tokens p) input))"
  "parse_items lib items i p = (Inr subs, p') \<Longrightarrow>
     tokens p' = tokens p \<and> baseURI p' = baseURI p \<and>
     subs = item_roots (length (registry p)) items \<and>
     (\<exists>new. registry p' = registry p @ new \<and>
            map node_view new =
            map (expected_view lib (baseURI p))
              (item_layout (length (registry p)) (tokens p) i items))"
proof (induction lib input p and lib items i p arbitrary: index p' and subs p'
       rule: Parse_parse_items.induct)
  case (1 lib input p)
  let ?base = "document_base lib p input"
  from "1.prems" show ?case
  proof (cases rule: Parse_Inr_cases)
    case (leaf p1 s)
    note h = parse_head_keeps[OF leaf(1)] and v = parse_head_view[OF leaf(1)]
    have p': "p' = p1\<lparr>registry := registry p1 @ [(URI lib p1, s)]\<rparr>"
      using leaf(3) by (simp add: insert_schema_eq)
    have "node_view (URI lib p1, s) = expected_view lib ?base (tokens p, input, [])"
      using h v by (simp add: node_view_def expected_view_def URI_def)
    then have "map node_view [(URI lib p1, s)] =
               map (expected_view lib ?base) (layout (length (registry p)) (tokens p) input)"
      using leaf(2) by (simp add: layout.simps[of _ _ input])
    then show ?thesis
      using p' h v by auto
  next
    case (single p1 s items sub p2)
    note h = parse_head_keeps[OF single(1)] and v = parse_head_view[OF single(1)]
    let ?q = "Push ''items'' p1"
    have q: "tokens ?q = tokens p @ [''items'']" "baseURI ?q = ?base" "registry ?q = registry p"
      "document_base lib ?q items = ?base"
      using h v by (simp_all add: Push_def document_base_def)
    obtain new where ih: "tokens p2 = tokens p @ [''items'']" "baseURI p2 = ?base"
      "registry p2 = registry p @ new"
      "map node_view new = map (expected_view lib ?base)
         (layout (length (registry p)) (tokens p @ [''items'']) items)"
      using "1.IH"(2)[OF single(1) refl single(2) refl single(3)] q by auto
    have "length new = count_schemas items"
      using arg_cong[OF ih(4), of length] by (simp add: length_layout)
    moreover have "Suc sub = length (registry p2)"
      using Parse_grows(1)[OF single(3)] by simp
    ultimately have sub: "sub = length (registry p) + count_schemas items - 1"
      using ih(3) by simp
    let ?s = "s\<lparr>Items := \<lparr>Items_IsSet = True, Items_IsSingle = True, Schemas = [sub]\<rparr>\<rparr>"
    have p': "p' = (Pop p2)\<lparr>registry := registry p2 @ [(URI lib (Pop p2), ?s)]\<rparr>"
      using single(4) by (simp add: insert_schema_eq Pop_def)
    have "node_view (URI lib (Pop p2), ?s) =
          expected_view lib ?base (tokens p, input, [length (registry p) + count_schemas items - 1])"
      using ih(1,2) v sub by (simp add: node_view_def expected_view_def URI_def Pop_def)
    then have "map node_view (new @ [(URI lib (Pop p2), ?s)]) =
               map (expected_view lib ?base) (layout (length (registry p)) (tokens p) input)"
      using single(2) ih(4) by (simp add: layout.simps[of _ _ input])
    moreover have "registry p' = registry p @ new @ [(URI lib (Pop p2), ?s)]"
      using p' ih(3) by simp
    moreover have "tokens p' = tokens p" "baseURI p' = ?base"
      using p' ih(1,2) by (simp_all add: Pop_def)
    ultimately show ?thesis
      by blast
  next
    case (tuple p1 s items subs p2)
    note h = parse_head_keeps[OF tuple(1)] and v = parse_head_view[OF tuple(1)]
    let ?q = "Push ''items'' p1"
    have q: "tokens ?q = tokens p @ [''items'']" "baseURI ?q = ?base" "registry ?q = registry p"
      using h v by (simp_all add: Push_def)
    obtain new where ih: "tokens p2 = tokens p @ [''items'']" "baseURI p2 = ?base"
      "subs = item_roots (length (registry p)) items"
      "registry p2 = registry p @ new"
      "map node_view new = map (expected_view lib ?base)
         (item_layout (length (registry p)) (tokens p @ [''items'']) 0 items)"
      using "1.IH"(1)[OF tuple(1) refl tuple(2) refl tuple(3)] q by auto
    let ?s = "s\<lparr>Items := \<lparr>Items_IsSet = True, Items_IsSingle = False, Schemas = subs\<rparr>\<rparr>"
    have p': "p' = (Pop p2)\<lparr>registry := registry p2 @ [(URI lib (Pop p2), ?s)]\<rparr>"
      using tuple(4) by (simp add: insert_schema_eq Pop_def)
    have "node_view (URI lib (Pop p2), ?s) =
          expected_view lib ?base (tokens p, input, item_roots (length (registry p)) items)"
      using ih(1,2,3) v by (simp add: node_view_def expected_view_def URI_def Pop_def)
    then have "map node_view (new @ [(URI lib (Pop p2), ?s)]) =
               map (expected_view lib ?base) (layout (length (registry p)) (tokens p) input)"
      using tuple(2) ih(5) by (simp add: layout.simps[of _ _ input])
    moreover have "registry p' = registry p @ new @ [(URI lib (Pop p2), ?s)]"
      using p' ih(4) by simp
    moreover have "tokens p' = tokens p" "baseURI p' = ?base"
      using p' ih(1,2) by (simp_all add: Pop_def)
    ultimately show ?thesis
      by blast
  qed
next
  case (2 lib i p)
  then show ?case
    by (simp add: layout.simps)
next
  case (3 lib item rest i p)
  from "3.prems" obtain obj sub p2 subs' where item: "item = JObj obj"
    and a: "Parse lib obj (Push (FormatInt i) p) = (Inr sub, p2)"
    and b: "parse_items lib rest (Suc i) (Pop p2) = (Inr subs', p')"
    and subs: "subs = sub # subs'"
    by (rule parse_items_Inr_cases)
  let ?q = "Push (FormatInt i) p"
  have q: "tokens ?q = tokens p @ [FormatInt i]" "registry ?q = registry p"
    "document_base lib ?q obj = baseURI p"
    by (simp_all add: Push_def document_base_def)
  obtain new1 where ih1: "tokens p2 = tokens p @ [FormatInt i]" "baseURI p2 = baseURI p"
    "registry p2 = registry p @ new1"
    "map node_view new1 = map (expected_view lib (baseURI p))
       (layout (length (registry p)) (tokens p @ [FormatInt i]) obj)"
    using "3.IH"(1)[OF item a] q by auto
  have len1: "length new1 = count_schemas obj"
    using arg_cong[OF ih1(4), of length] by (simp add: length_layout)
  have "Suc sub = length (registry p2)"
    using Parse_grows(1)[OF a] by simp
  then have sub: "sub = length (registry p) + count_schemas obj - 1"
    using ih1(3) len1 by simp
  have r: "tokens (Pop p2) = tokens p" "baseURI (Pop p2) = baseURI p"
    "registry (Pop p2) = registry p @ new1"
    "length (registry (Pop p2)) = length (registry p) + count_schemas obj"
    using ih1 len1 by (simp_all add: Pop_def)
  obtain new2 where ih2: "tokens p' = tokens p" "baseURI p' = baseURI p"
    "subs' = item_roots (length (registry p) + count_schemas obj) rest"
    "registry p' = registry p @ new1 @ new2"
    "map node_view new2 = map (expected_view lib (baseURI p))
       (item_layout (length (registry p) + count_schemas obj) (tokens p) (Suc i) rest)"
    using "3.IH"(2)[OF item a[symmetric] refl b] r by auto
  have "map node_view (new1 @ new2) = map (expected_view lib (baseURI p))
       (item_layout (length (registry p)) (tokens p) i (item # rest))"
    using ih1(4) ih2(5) item by (simp add: layout.simps)
  moreover have "subs = item_roots (length (registry p)) (item # rest)"
    using subs sub ih2(3) item by simp
  ultimately show ?case
    using ih2(1,2,4) by blast
qed

text \<open>
  C8. When \<open>Parse\<close> succeeds, the registry is the old one followed by one new node for
  every schema object of the document, in post-order: the nodes of the schemas under
  \<^verbatim>\<open>items\<close> come before the node of the object that holds them. Node by node, the key
  carries the JSON pointer of the object, and the sub-schema indices recorded in the node
  are the indices of the nodes of the object's own nested schemas. The node of the parsed
  object is the last one and its index is the one returned; every sub-schema index of a
  new node is the index of a new node inserted before it.
\<close>

theorem Parse_inserts_post_order:
  assumes "Parse lib input p = (Inr index, p')"
  shows "(\<exists>new. registry p' = registry p @ new \<and>
            map (\<lambda>node. (Fragment (fst node), Schemas (Items (snd node)))) new =
            map (\<lambda>entry. case entry of (path, obj, children) \<Rightarrow> (ptr_String lib path, children))
              (layout (length (registry p)) (tokens p) input)) \<and>
         length (registry p') = length (registry p) + count_schemas input \<and>
         Suc index = length (registry p') \<and> length (registry p) \<le> index \<and>
         (\<forall>k. length (registry p) \<le> k \<and> k < length (registry p') \<longrightarrow>
              (\<forall>c \<in> set (Schemas (Items (snd (registry p' ! k)))).
                   length (registry p) \<le> c \<and> c < k))"
proof -
  let ?L = "layout (length (registry p)) (tokens p) input"
  have g: "grows (registry p) (registry p')"
    and i: "Suc index = length (registry p')" "length (registry p) \<le> index"
    using Parse_grows(1)[OF assms] by simp_all
  obtain new where new: "registry p' = registry p @ new"
    "map node_view new = map (expected_view lib (document_base lib p input)) ?L"
    using Parse_layout(1)[OF assms] by blast
  have "map (\<lambda>v. (Fragment (fst v), fst (snd v))) (map node_view new) =
        map (\<lambda>v. (Fragment (fst v), fst (snd v)))
          (map (expected_view lib (document_base lib p input)) ?L)"
    using new(2) by (rule arg_cong)
  then have view: "map (\<lambda>node. (Fragment (fst node), Schemas (Items (snd node)))) new =
        map (\<lambda>entry. case entry of (path, obj, children) \<Rightarrow> (ptr_String lib path, children)) ?L"
    by (simp add: node_view_def expected_view_def comp_def case_prod_unfold)
  have "length new = count_schemas input"
    using arg_cong[OF new(2), of length] by (simp add: length_layout)
  then have len: "length (registry p') = length (registry p) + count_schemas input"
    using new(1) by simp
  have "\<forall>k. length (registry p) \<le> k \<and> k < length (registry p') \<longrightarrow>
      (\<forall>c \<in> set (Schemas (Items (snd (registry p' ! k)))). length (registry p) \<le> c \<and> c < k)"
    using grows_child[OF g] by blast
  then show ?thesis
    using new(1) view len i by blast
qed

text \<open>
  The document \<^verbatim>\<open>{"items": {"items": [{"type": "null"}, {"items": {}}]}}\<close> has five
  schema objects; the registry gets five nodes, the root last.
\<close>

theorem Parse_inserts_post_order_witness:
  "Parse std doc_mixed parser0 = (Inr 4, snd (Parse std doc_mixed parser0)) \<and>
   map (\<lambda>node. (Fragment (fst node), Schemas (Items (snd node))))
     (registry (snd (Parse std doc_mixed parser0))) =
     [(''/items/items/0'', []), (''/items/items/1/items'', []), (''/items/items/1'', [1]),
      (''/items'', [0, 2]), ([], [3])]"
proof -
  have ev: "Parse std doc_mixed parser0 = (Inr 4, snd (Parse std doc_mixed parser0))"
    by code_simp
  have lay: "map (\<lambda>entry. case entry of (path, obj, children) \<Rightarrow> (ptr_String std path, children))
       (layout 0 [] doc_mixed) =
     [(''/items/items/0'', []), (''/items/items/1/items'', []), (''/items/items/1'', [1]),
      (''/items'', [0, 2]), ([], [3])]"
    by code_simp
  have p0: "registry parser0 = []" "tokens parser0 = []"
    by (simp_all add: parser0_def)
  obtain new where new: "registry (snd (Parse std doc_mixed parser0)) = registry parser0 @ new"
    "map (\<lambda>node. (Fragment (fst node), Schemas (Items (snd node)))) new =
     map (\<lambda>entry. case entry of (path, obj, children) \<Rightarrow> (ptr_String std path, children))
       (layout (length (registry parser0)) (tokens parser0) doc_mixed)"
    using Parse_inserts_post_order[OF ev] by blast
  have "map (\<lambda>node. (Fragment (fst node), Schemas (Items (snd node))))
     (registry (snd (Parse std doc_mixed parser0))) =
     [(''/items/items/0'', []), (''/items/items/1/items'', []), (''/items/items/1'', [1]),
      (''/items'', [0, 2]), ([], [3])]"
    using new lay unfolding p0 by simp
  then show ?thesis
    using ev by (rule conjI[rotated])
qed

section \<open>The base URI below the root\<close>

lemma snd_insert_schema: "baseURI (snd (insert_schema lib p s)) = baseURI p"
  by (simp add: insert_schema_def Insert_def)

lemma parse_head_nested:
  "tokens p \<noteq> [] \<Longrightarrow> parse_head lib input p = Inr b \<Longrightarrow> fst b = p"
  using parse_head_keeps(5)[of lib input p "fst b" "snd b"] by simp

lemma Parse_keeps_baseURI:
  "tokens p \<noteq> [] \<Longrightarrow> baseURI (snd (Parse lib input p)) = baseURI p"
  "baseURI (snd (parse_items lib items i p)) = baseURI p"
proof (induction lib input p and lib items i p rule: Parse_parse_items.induct)
  case (1 lib input p)
  show ?case
  proof (cases "parse_head lib input p")
    case (Inl e)
    then show ?thesis
      by (simp add: Parse.simps[of lib input p])
  next
    case (Inr b)
    obtain p1 s where b: "b = (p1, s)"
      by (cases b)
    have p1: "p1 = p"
      using parse_head_nested[OF "1.prems" Inr] b by simp
    show ?thesis
    proof (cases "map_of input ''items''")
      case None
      then show ?thesis
        using Inr b p1 by (simp add: Parse.simps[of lib input p] snd_insert_schema)
    next
      case (Some itemsValue)
      show ?thesis
      proof (cases itemsValue)
        case (JObj obj)
        obtain res p2 where r: "Parse lib obj (Push ''items'' p1) = (res, p2)"
          by (cases "Parse lib obj (Push ''items'' p1)")
        have ih: "baseURI p2 = baseURI p"
          using "1.IH"(2)[OF Inr b[symmetric] Some JObj] p1 r by (simp add: Push_def)
        show ?thesis
          using Inr b Some JObj r ih
          by (cases res) (simp_all add: Parse.simps[of lib input p] snd_insert_schema Pop_def)
      next
        case (JArr arr)
        obtain res p2 where r: "parse_items lib arr 0 (Push ''items'' p1) = (res, p2)"
          by (cases "parse_items lib arr 0 (Push ''items'' p1)")
        have ih: "baseURI p2 = baseURI p"
          using "1.IH"(1)[OF Inr b[symmetric] Some JArr] p1 r by (simp add: Push_def)
        show ?thesis
          using Inr b Some JArr r ih
          by (cases res) (simp_all add: Parse.simps[of lib input p] snd_insert_schema Pop_def)
      qed (use Inr b p1 Some in \<open>simp_all add: Parse.simps[of lib input p]\<close>)
    qed
  qed
next
  case (2 lib i p)
  then show ?case
    by simp
next
  case (3 lib item rest i p)
  show ?case
  proof (cases item)
    case (JObj obj)
    obtain res p2 where r: "Parse lib obj (Push (FormatInt i) p) = (res, p2)"
      by (cases "Parse lib obj (Push (FormatInt i) p)")
    have ih1: "baseURI p2 = baseURI p"
      using "3.IH"(1)[OF JObj] r by (simp add: Push_def)
    show ?thesis
    proof (cases res)
      case (Inl e)
      then show ?thesis
        using JObj r ih1 by simp
    next
      case (Inr sub)
      obtain res' p3 where r': "parse_items lib rest (Suc i) (Pop p2) = (res', p3)"
        by (cases "parse_items lib rest (Suc i) (Pop p2)")
      have ih2: "baseURI p3 = baseURI p"
        using "3.IH"(2)[OF JObj r[symmetric] Inr] ih1 r' by (simp add: Pop_def)
      show ?thesis
        using JObj r Inr r' ih2 by (cases res') simp_all
    qed
  qed (simp_all add: Push_def)
qed

lemma Parse_ignores_nested_id:
  assumes "tokens p \<noteq> []" and "\<forall>k. k \<noteq> ''$id'' \<longrightarrow> map_of input' k = map_of input k"
  shows "Parse lib input' p = Parse lib input p"
proof -
  have keys: "map_of input' ''$ref'' = map_of input ''$ref''"
    "map_of input' ''type'' = map_of input ''type''"
    "map_of input' ''items'' = map_of input ''items''"
    using assms(2) by simp_all
  have id: "parse_id lib input' p = parse_id lib input p"
    using assms(1) by (intro ext) (simp add: parse_id_def)
  have ref: "parse_ref lib input' = parse_ref lib input"
    by (intro ext) (simp add: parse_ref_def keys)
  have type: "parse_type input' = parse_type input"
    by (intro ext) (simp add: parse_type_def keys)
  have head: "parse_head lib input' p = parse_head lib input p"
    unfolding parse_head_def id ref type ..
  show ?thesis
    unfolding Parse.simps[of lib input' p] Parse.simps[of lib input p] head keys ..
qed

lemma parse_id_root:
  assumes "parse_id lib input p s = Inr (p1, s1)" and "tokens p = []"
    and "map_of input ''$id'' = Some (JStr idStr)"
  shows "url_Parse lib idStr = Some (baseURI p1)"
  using assms by (auto simp: parse_id_def split: option.splits)

lemma Parse_root_id:
  assumes "Parse lib input p = (Inr index, p')" and "tokens p = []"
    and "map_of input ''$id'' = Some (JStr idStr)"
  shows "url_Parse lib idStr = Some (baseURI p')"
proof -
  obtain p1 s where h: "parse_head lib input p = Inr (p1, s)"
    using assms(1) by (cases rule: Parse_Inr_cases) blast+
  obtain s1 where "parse_id lib input p schema0 = Inr (p1, s1)"
    using h by (auto simp: parse_head_def split: sum.splits prod.splits)
  then have "url_Parse lib idStr = Some (baseURI p1)"
    using assms(2,3) by (rule parse_id_root)
  then show ?thesis
    using parse_head_view(1)[OF h] Parse_layout(1)[OF assms(1)] by simp
qed

text \<open>
  C9, as the code has it. \<open>Parse\<close> reads \<^verbatim>\<open>$id\<close> only when the token stack is empty, that
  is at the root of a document. When \<open>Parse\<close> succeeds, the base URI of the parser is
  afterwards the base of the document: at the root the \<^verbatim>\<open>$id\<close> of the root, parsed on
  its own with \<^verbatim>\<open>url.Parse\<close>, and otherwise the base URI before the call. Every node
  inserted for a schema object of the document, at any depth and whatever \<^verbatim>\<open>$id\<close> the
  object carries, has that base with the object's pointer as its key, and as the target
  of its \<^verbatim>\<open>$ref\<close> the object's own reference string resolved against that base. For a
  nested schema object (a non-empty token stack) the result does not depend on the
  object's \<^verbatim>\<open>$id\<close> entry at all, and the base URI after the call, successful or not, is
  the base URI before it.
\<close>

theorem base_uri_is_set_at_the_root_only:
  "(\<forall>index p'. Parse lib input p = (Inr index, p') \<longrightarrow>
      baseURI p' = document_base lib p input \<and>
      (tokens p = [] \<longrightarrow>
         (\<forall>idStr. map_of input ''$id'' = Some (JStr idStr) \<longrightarrow>
                  url_Parse lib idStr = Some (baseURI p'))) \<and>
      (\<exists>new. registry p' = registry p @ new \<and>
         map (\<lambda>node. (fst node, ref_target (snd node))) new =
         map (\<lambda>entry. case entry of (path, obj, children) \<Rightarrow>
                 ((baseURI p')\<lparr>Fragment := ptr_String lib path\<rparr>, own_ref lib (baseURI p') obj))
           (layout (length (registry p)) (tokens p) input))) \<and>
   (tokens p \<noteq> [] \<and> (\<forall>k. k \<noteq> ''$id'' \<longrightarrow> map_of input' k = map_of input k) \<longrightarrow>
      Parse lib input' p = Parse lib input p \<and>
      baseURI (snd (Parse lib input p)) = baseURI p)"
proof (rule conjI)
  show "\<forall>index p'. Parse lib input p = (Inr index, p') \<longrightarrow>
      baseURI p' = document_base lib p input \<and>
      (tokens p = [] \<longrightarrow>
         (\<forall>idStr. map_of input ''$id'' = Some (JStr idStr) \<longrightarrow>
                  url_Parse lib idStr = Some (baseURI p'))) \<and>
      (\<exists>new. registry p' = registry p @ new \<and>
         map (\<lambda>node. (fst node, ref_target (snd node))) new =
         map (\<lambda>entry. case entry of (path, obj, children) \<Rightarrow>
                 ((baseURI p')\<lparr>Fragment := ptr_String lib path\<rparr>, own_ref lib (baseURI p') obj))
           (layout (length (registry p)) (tokens p) input))"
  proof (intro allI impI)
    fix index p'
    assume ok: "Parse lib input p = (Inr index, p')"
    let ?L = "layout (length (registry p)) (tokens p) input"
    have base: "baseURI p' = document_base lib p input"
      using Parse_layout(1)[OF ok] by blast
    obtain new where new: "registry p' = registry p @ new"
      "map node_view new = map (expected_view lib (document_base lib p input)) ?L"
      using Parse_layout(1)[OF ok] by blast
    have "map (\<lambda>v. (fst v, snd (snd v))) (map node_view new) =
          map (\<lambda>v. (fst v, snd (snd v))) (map (expected_view lib (document_base lib p input)) ?L)"
      using new(2) by (rule arg_cong)
    then have view: "map (\<lambda>node. (fst node, ref_target (snd node))) new =
         map (\<lambda>entry. case entry of (path, obj, children) \<Rightarrow>
                 ((baseURI p')\<lparr>Fragment := ptr_String lib path\<rparr>, own_ref lib (baseURI p') obj)) ?L"
      unfolding base by (simp add: node_view_def expected_view_def comp_def case_prod_unfold)
    have root: "tokens p = [] \<longrightarrow>
         (\<forall>idStr. map_of input ''$id'' = Some (JStr idStr) \<longrightarrow>
                  url_Parse lib idStr = Some (baseURI p'))"
      using Parse_root_id[OF ok] by blast
    show "baseURI p' = document_base lib p input \<and>
      (tokens p = [] \<longrightarrow>
         (\<forall>idStr. map_of input ''$id'' = Some (JStr idStr) \<longrightarrow>
                  url_Parse lib idStr = Some (baseURI p'))) \<and>
      (\<exists>new. registry p' = registry p @ new \<and>
         map (\<lambda>node. (fst node, ref_target (snd node))) new =
         map (\<lambda>entry. case entry of (path, obj, children) \<Rightarrow>
                 ((baseURI p')\<lparr>Fragment := ptr_String lib path\<rparr>, own_ref lib (baseURI p') obj)) ?L)"
      using base root new(1) view by blast
  qed
next
  show "tokens p \<noteq> [] \<and> (\<forall>k. k \<noteq> ''$id'' \<longrightarrow> map_of input' k = map_of input k) \<longrightarrow>
      Parse lib input' p = Parse lib input p \<and>
      baseURI (snd (Parse lib input p)) = baseURI p"
    using Parse_ignores_nested_id[of p input' input lib] Parse_keeps_baseURI(1)[of p lib input]
    by blast
qed

text \<open>
  The root \<^verbatim>\<open>{"$id": "http://example.com/root", "$ref": "#/items", "items": {"$id":
  "http://example.com/nested", "$ref": "#"}}\<close>: the base URI becomes the root's \<^verbatim>\<open>$id\<close>,
  and both references, the nested one first, are resolved against it. The nested object
  parsed on a non-empty token stack gives the same result with and without its \<^verbatim>\<open>$id\<close>.
\<close>

theorem base_uri_is_set_at_the_root_only_witness:
  "Parse std doc_root_id parser0 = (Inr 1, snd (Parse std doc_root_id parser0)) \<and>
   baseURI (snd (Parse std doc_root_id parser0)) = example_com ''/root'' \<and>
   url_Parse std ''http://example.com/root'' = Some (example_com ''/root'') \<and>
   map (\<lambda>node. (fst node, ref_target (snd node))) (registry (snd (Parse std doc_root_id parser0))) =
     [((example_com ''/root'')\<lparr>Fragment := ''/items''\<rparr>, Some (example_com ''/root'')),
      (example_com ''/root'', Some ((example_com ''/root'')\<lparr>Fragment := ''/items''\<rparr>))] \<and>
   tokens (Push ''items'' parser0) \<noteq> [] \<and>
   Parse std [(''$id'', JStr ''http://example.com/nested''), (''$ref'', JStr ''#'')]
     (Push ''items'' parser0) =
   Parse std [(''$ref'', JStr ''#'')] (Push ''items'' parser0)"
proof -
  have ev: "Parse std doc_root_id parser0 = (Inr 1, snd (Parse std doc_root_id parser0))"
    by code_simp
  have db: "document_base std parser0 doc_root_id = example_com ''/root''"
    by code_simp
  have lay: "map (\<lambda>entry. case entry of (path, obj, children) \<Rightarrow>
                 ((example_com ''/root'')\<lparr>Fragment := ptr_String std path\<rparr>,
                  own_ref std (example_com ''/root'') obj))
           (layout 0 [] doc_root_id) =
     [((example_com ''/root'')\<lparr>Fragment := ''/items''\<rparr>, Some (example_com ''/root'')),
      (example_com ''/root'', Some ((example_com ''/root'')\<lparr>Fragment := ''/items''\<rparr>))]"
    by code_simp
  have p0: "registry parser0 = []" "tokens parser0 = []"
    by (simp_all add: parser0_def)
  have id: "map_of doc_root_id ''$id'' = Some (JStr ''http://example.com/root'')"
    by (simp add: doc_root_id_def)
  note th = base_uri_is_set_at_the_root_only[of std doc_root_id parser0 doc_root_id]
  note ok = conjunct1[OF th, rule_format, OF ev]
  have base: "baseURI (snd (Parse std doc_root_id parser0)) = example_com ''/root''"
    using conjunct1[OF ok] db by (rule trans)
  have parsed: "url_Parse std ''http://example.com/root'' = Some (example_com ''/root'')"
    using conjunct1[OF conjunct2[OF ok], rule_format, OF p0(2) id] unfolding base .
  obtain new where new: "registry (snd (Parse std doc_root_id parser0)) = registry parser0 @ new"
    "map (\<lambda>node. (fst node, ref_target (snd node))) new =
     map (\<lambda>entry. case entry of (path, obj, children) \<Rightarrow>
             ((baseURI (snd (Parse std doc_root_id parser0)))\<lparr>Fragment := ptr_String std path\<rparr>,
              own_ref std (baseURI (snd (Parse std doc_root_id parser0))) obj))
       (layout (length (registry parser0)) (tokens parser0) doc_root_id)"
    using conjunct2[OF conjunct2[OF ok]] by (elim exE conjE)
  have nodes: "map (\<lambda>node. (fst node, ref_target (snd node)))
       (registry (snd (Parse std doc_root_id parser0))) =
     [((example_com ''/root'')\<lparr>Fragment := ''/items''\<rparr>, Some (example_com ''/root'')),
      (example_com ''/root'', Some ((example_com ''/root'')\<lparr>Fragment := ''/items''\<rparr>))]"
    using new lay unfolding p0 base by simp
  have t: "tokens (Push ''items'' parser0) \<noteq> []"
    by (simp add: Push_def)
  have k: "\<forall>k. k \<noteq> ''$id'' \<longrightarrow>
      map_of [(''$id'', JStr ''http://example.com/nested''), (''$ref'', JStr ''#'')] k =
      map_of [(''$ref'', JStr ''#'')] k"
    by simp
  note th2 = base_uri_is_set_at_the_root_only[of std "[(''$ref'', JStr ''#'')]" "Push ''items'' parser0"
        "[(''$id'', JStr ''http://example.com/nested''), (''$ref'', JStr ''#'')]"]
  have same: "Parse std [(''$id'', JStr ''http://example.com/nested''), (''$ref'', JStr ''#'')]
      (Push ''items'' parser0) = Parse std [(''$ref'', JStr ''#'')] (Push ''items'' parser0)"
    using conjunct2[OF th2, rule_format, OF conjI[OF t k]] by (rule conjunct1)
  show ?thesis
    using ev base parsed nodes t same by (intro conjI)
qed

text \<open>
  The claim as stated fails: in \<^verbatim>\<open>{"items": {"$id": "http://example.com/nested", "$ref": "#"}}\<close>
  the reference of the nested object is resolved against the empty base URI of the root,
  not against the nested \<^verbatim>\<open>$id\<close>, and the parser's base URI stays empty.
\<close>

theorem nested_id_counterexample:
  "fst (Parse std doc_nested_id parser0) = Inr 1 \<and>
   map (\<lambda>node. Ref_URI (Ref (snd node))) (registry (snd (Parse std doc_nested_id parser0))) =
     [emptyURL, emptyURL] \<and>
   baseURI (snd (Parse std doc_nested_id parser0)) = emptyURL \<and>
   url_Resolve std (example_com ''/nested'') ''#'' = Some (example_com ''/nested'') \<and>
   example_com ''/nested'' \<noteq> emptyURL"
  by code_simp

section \<open>The list of missing URIs\<close>

lemma seal_loop_eq:
  "seal_loop r nodes missing =
     missing @ map (\<lambda>node. Ref_BaseURI (Ref (snd node)))
       (filter (\<lambda>node. Ref_IsSet (Ref (snd node)) \<and> Get r (Ref_BaseURI (Ref (snd node))) = None)
          nodes)"
  by (induction nodes arbitrary: missing) (simp_all add: Let_def)

lemma parseRootSchema_grows:
  assumes "parseRootSchema lib r d = (Inr s, r1)"
  shows "grows r r1"
proof -
  let ?p = "\<lparr>registry = r, baseURI = emptyURL, tokens = []\<rparr>"
  obtain index p' where p: "Parse lib d ?p = (Inr index, p')" and r1: "r1 = registry p'"
    using assms
    by (auto simp: parseRootSchema_def parseSubSchema_def split: prod.splits sum.splits option.splits)
  show ?thesis
    using Parse_grows(1)[OF p] r1 by simp
qed

lemma parse_documents_grows: "parse_documents lib ds r = Inr r' \<Longrightarrow> grows r r'"
proof (induction ds arbitrary: r)
  case Nil
  then show ?case
    by (simp add: grows_refl)
next
  case (Cons d ds)
  obtain s r1 where d: "parseRootSchema lib r d = (Inr s, r1)"
    and rest: "parse_documents lib ds r1 = Inr r'"
    using Cons.prems by (auto split: prod.splits sum.splits)
  show ?case
    using grows_trans[OF parseRootSchema_grows[OF d] Cons.IH[OF rest]] .
qed

lemma grows_from_empty:
  assumes "grows [] r"
  shows "\<forall>node \<in> set r. ref_ok (snd node)"
    and "\<forall>k < length r. \<forall>c \<in> set (Schemas (Items (snd (r ! k)))). c < k"
proof -
  show "\<forall>node \<in> set r. ref_ok (snd node)"
    using assms by (rule grows_new) simp
  show "\<forall>k < length r. \<forall>c \<in> set (Schemas (Items (snd (r ! k)))). c < k"
    using grows_child[OF assms] by simp
qed

text \<open>
  C3. When the build ends with the missing-URIs error, the documents were parsed into a
  registry in post-order (every sub-schema index is below its parent's), and the list
  holds, for the nodes in insertion order that carry a \<^verbatim>\<open>$ref\<close> whose fragment-free
  target is not registered, that target: the reference's absolute URI without its
  fragment, once per referencing node.
\<close>

theorem missing_uris_in_insertion_order:
  assumes "NewValidatorWithConfig lib ds cfg = Inl (ErrMissingURIs uris)"
  shows "\<exists>r. parse_documents lib ds [] = Inr r \<and>
           (\<forall>k < length r. \<forall>c \<in> set (Schemas (Items (snd (r ! k)))). c < k) \<and>
           uris = map (\<lambda>node. (Ref_URI (Ref (snd node)))\<lparr>Fragment := []\<rparr>)
                    (filter (\<lambda>node. Ref_IsSet (Ref (snd node)) \<and>
                               Get r ((Ref_URI (Ref (snd node)))\<lparr>Fragment := []\<rparr>) = None) r)"
proof -
  obtain r where r: "parse_documents lib ds [] = Inr r" and s: "Seal r = Inl (ErrMissingURIs uris)"
    using assms by (auto simp: NewValidatorWithConfig_def split: sum.splits)
  have g: "grows [] r"
    using r by (rule parse_documents_grows)
  have ok: "\<forall>node \<in> set r. Ref_BaseURI (Ref (snd node)) = (Ref_URI (Ref (snd node)))\<lparr>Fragment := []\<rparr>"
    using grows_from_empty(1)[OF g] by (simp add: ref_ok_def)
  have "uris = seal_loop r r []"
    using s by (simp add: Seal_def Let_def split: if_splits)
  also have "\<dots> = map (\<lambda>node. Ref_BaseURI (Ref (snd node)))
       (filter (\<lambda>node. Ref_IsSet (Ref (snd node)) \<and> Get r (Ref_BaseURI (Ref (snd node))) = None) r)"
    by (simp add: seal_loop_eq)
  also have "\<dots> = map (\<lambda>node. (Ref_URI (Ref (snd node)))\<lparr>Fragment := []\<rparr>)
       (filter (\<lambda>node. Ref_IsSet (Ref (snd node)) \<and>
                  Get r ((Ref_URI (Ref (snd node)))\<lparr>Fragment := []\<rparr>) = None) r)"
    using ok by (intro map_cong filter_cong refl) auto
  finally show ?thesis
    using r grows_from_empty(2)[OF g] by blast
qed

theorem missing_uris_in_insertion_order_witness:
  "NewValidatorWithConfig std [doc_refs] \<lparr>MaxErrors = 0, MaxStackDepth = 64\<rparr> =
     Inl (ErrMissingURIs [example_com ''/2'', example_com ''/3'', example_com ''/4'',
                          example_com ''/1''])"
proof -
  have ev: "NewValidatorWithConfig std [doc_refs] \<lparr>MaxErrors = 0, MaxStackDepth = 64\<rparr> =
     Inl (ErrMissingURIs [example_com ''/2'', example_com ''/3'', example_com ''/4'',
                          example_com ''/1''])"
    by code_simp
  have "\<exists>r. parse_documents std [doc_refs] [] = Inr r"
    using missing_uris_in_insertion_order[OF ev] by blast
  then show ?thesis
    using ev by simp
qed

section \<open>A schema that refers to itself\<close>

lemma Parse_self_ref:
  assumes "url_Resolve lib emptyURL ''#'' = Some emptyURL"
    and "ptr_New lib [] = Some []" and "ptr_String lib [] = []"
  shows "Parse lib doc_self_ref \<lparr>registry = r, baseURI = emptyURL, tokens = []\<rparr> =
           (Inr (length r),
            \<lparr>registry = r @ [(emptyURL, self_ref_node)], baseURI = emptyURL, tokens = []\<rparr>)"
  using assms
  by (simp add: Parse.simps doc_self_ref_def parse_head_def parse_id_def parse_ref_def
        parse_type_def insert_schema_def Insert_def URI_def self_ref_node_def schema0_def
        emptyURL_def)

lemma self_ref_node_fields:
  "Ref_IsSet (Ref self_ref_node)"
  "Ref_URI (Ref self_ref_node) = emptyURL"
  "Ref_BaseURI (Ref self_ref_node) = emptyURL"
  by (simp_all add: self_ref_node_def)

lemma run_self_ref:
  assumes "Get r emptyURL = Some self_ref_node"
  shows "run cfg r depth self_ref_node inst m = Inl StackOverflow"
proof (induction "MaxStackDepth cfg - depth" arbitrary: depth m)
  case 0
  then have "MaxStackDepth cfg \<le> depth"
    by simp
  then show ?case
    using assms by (subst run.simps) (simp add: self_ref_node_fields)
next
  case (Suc n)
  then have d: "\<not> MaxStackDepth cfg \<le> depth" and n: "n = MaxStackDepth cfg - Suc depth"
    by simp_all
  have "run cfg r (Suc depth) self_ref_node inst (pushNewSchema emptyURL [] m) = Inl StackOverflow"
    using Suc.hyps(1)[OF n] .
  then show ?case
    using assms d by (subst run.simps) (simp add: self_ref_node_fields)
qed

text \<open>
  C1. For the registry built from the single schema \<^verbatim>\<open>{"$ref": "#"}\<close> (with \<^verbatim>\<open>#\<close>
  resolving, against the empty base, to the empty URL, as net/url does), the build
  succeeds, and validating any instance under any configuration returns: the result is
  the stack-overflow failure, an error of the call and not an entry of an error list.
\<close>

theorem self_ref_ends_in_stack_overflow:
  assumes "url_Resolve lib emptyURL ''#'' = Some emptyURL"
    and "ptr_New lib [] = Some []" and "ptr_String lib [] = []"
  shows "\<exists>v. NewValidatorWithConfig lib [doc_self_ref] cfg = Inr v \<and>
             (\<forall>inst. Validate v inst = Inl ErrStackOverflow)"
proof -
  let ?r = "[(emptyURL, self_ref_node)]"
  let ?v = "\<lparr>sealed_registry = ?r, sealed_root = Some self_ref_node, sealed_config = cfg\<rparr>"
  have p: "Parse lib doc_self_ref \<lparr>registry = [], baseURI = emptyURL, tokens = []\<rparr> =
      (Inr 0, \<lparr>registry = ?r, baseURI = emptyURL, tokens = []\<rparr>)"
    using Parse_self_ref[OF assms, of "[]"] by simp
  have root: "parseRootSchema lib [] doc_self_ref = (Inr self_ref_node, ?r)"
    by (simp add: parseRootSchema_def parseSubSchema_def p GetIndex_def)
  have get: "Get ?r emptyURL = Some self_ref_node"
    by (simp add: Get_def)
  have seal: "Seal ?r = Inr ?r"
    using get by (simp add: Seal_def self_ref_node_fields)
  have build: "NewValidatorWithConfig lib [doc_self_ref] cfg = Inr ?v"
    by (simp add: NewValidatorWithConfig_def root seal first_root_def)
  have "Validate ?v inst = Inl ErrStackOverflow" for inst
    by (simp add: Validate_def run_self_ref[OF get])
  then show ?thesis
    using build by blast
qed

theorem self_ref_ends_in_stack_overflow_witness:
  "url_Resolve std emptyURL ''#'' = Some emptyURL \<and> ptr_New std [] = Some [] \<and>
   ptr_String std [] = [] \<and>
   (case NewValidatorWithConfig std [doc_self_ref] \<lparr>MaxErrors = 0, MaxStackDepth = 64\<rparr> of
      Inl e \<Rightarrow> Inl e
    | Inr v \<Rightarrow> Validate v JNull) = Inl ErrStackOverflow"
proof -
  have a: "url_Resolve std emptyURL ''#'' = Some emptyURL"
    by code_simp
  have b: "ptr_New std [] = Some []"
    by code_simp
  have c: "ptr_String std [] = []"
    by code_simp
  obtain v where "NewValidatorWithConfig std [doc_self_ref] \<lparr>MaxErrors = 0, MaxStackDepth = 64\<rparr> = Inr v"
    and "Validate v JNull = Inl ErrStackOverflow"
    using self_ref_ends_in_stack_overflow[OF a b c, of "\<lparr>MaxErrors = 0, MaxStackDepth = 64\<rparr>"]
    by blast
  then show ?thesis
    using a b c by simp
qed

section \<open>The error cap\<close>

lemma map_result_simps [simp]:
  "map_result f (Inl e) = Inl e" "map_result f (Inr x) = Inr (f x)"
  by (simp_all add: map_result_def)

lemma keep_first_fields [simp]:
  "vm_stack (keep_first n m) = vm_stack m" "errors (keep_first n m) = take n (errors m)"
  by (simp_all add: keep_first_def)















end
